theory Spec2Isabelle
  imports Main
begin

section \<open>The syntax trees the compiler works on\<close>

text \<open>
  The coroutine compiler (\<^verbatim>\<open>coroc/compiler/compile.go\<close>) rewrites Go syntax trees of
  package \<^verbatim>\<open>go/ast\<close>.  The trees are modelled as datatypes with the field order of the
  Go structs.  Three points of the model:

  \<^item> Go keys its tables by node pointer (\<^verbatim>\<open>map[ast.Stmt]span\<close>, the maps of
    \<^verbatim>\<open>types.Info\<close>).  Every statement and every identifier therefore carries the
    address of its node as first field (\<open>ptr\<close>).  A node that the compiler allocates
    itself gets the address \<open>0\<close>; none of the functions below looks such a node up.
  \<^item> \<^verbatim>\<open>*ast.BlockStmt\<close> and \<^verbatim>\<open>*ast.FuncType\<close> are field types of their own in Go
    (\<^verbatim>\<open>IfStmt.Body\<close>, \<^verbatim>\<open>FuncLit.Type\<close>); they are the types \<open>block\<close> and
    \<open>functype\<close>, wrapped by \<open>BlockStmt\<close> and \<open>FuncTypeExpr\<close> where they stand for a
    statement or an expression.
  \<^item> The positions that \<^verbatim>\<open>compileFunction\<close> overwrites in place (the identifiers and
    the token of an assignment) are type parameters, so that these two rewrites are
    the map function of the datatype.
\<close>

type_synonym ptr = nat

datatype tok =
    ILLEGAL | INT' | STRING | ADD | SUB | MUL | LSS | GTR | LEQ | EQL | NOT
  | ASSIGN | DEFINE | ADD_ASSIGN | INC | DEC
  | BREAK | CONTINUE | GOTO | FALLTHROUGH | VAR | IMPORT

datatype ident = Ident (NamePos: ptr) (Name: string) (Obj: "nat option")

datatype ('i, 'a) gexpr =
    BadExpr
  | Id 'i
  | BasicLit tok string
  | FuncLit "('i, 'a) gfunctype" "('i, 'a) gblock"
  | CompositeLit "('i, 'a) gexpr option" "('i, 'a) gexpr list"
  | ParenExpr "('i, 'a) gexpr"
  | SelectorExpr "('i, 'a) gexpr" 'i
  | IndexExpr "('i, 'a) gexpr" "('i, 'a) gexpr"
  | IndexListExpr "('i, 'a) gexpr" "('i, 'a) gexpr list"
  | TypeAssertExpr "('i, 'a) gexpr" "('i, 'a) gexpr option"
  | CallExpr "('i, 'a) gexpr" "('i, 'a) gexpr list"
  | StarExpr "('i, 'a) gexpr"
  | UnaryExpr tok "('i, 'a) gexpr"
  | BinaryExpr "('i, 'a) gexpr" tok "('i, 'a) gexpr"
  | KeyValueExpr "('i, 'a) gexpr" "('i, 'a) gexpr"
  | ArrayType "('i, 'a) gexpr option" "('i, 'a) gexpr"
  | FuncTypeExpr "('i, 'a) gfunctype"
  | MapType "('i, 'a) gexpr" "('i, 'a) gexpr"
and ('i, 'a) gfield = Field "'i list" "('i, 'a) gexpr option"
and ('i, 'a) gfunctype =
    FuncType "('i, 'a) gfield list option" "('i, 'a) gfield list option"
and ('i, 'a) gblock = Block ptr "('i, 'a) gstmt list"
and ('i, 'a) gspec =
    ImportSpec "('i, 'a) gexpr"
  | ValueSpec "'i list" "('i, 'a) gexpr option" "('i, 'a) gexpr list"
and ('i, 'a) gstmt =
    BadStmt ptr
  | DeclStmt ptr tok "('i, 'a) gspec list"
  | EmptyStmt ptr
  | LabeledStmt ptr 'i "('i, 'a) gstmt"
  | ExprStmt ptr "('i, 'a) gexpr"
  | SendStmt ptr "('i, 'a) gexpr" "('i, 'a) gexpr"
  | IncDecStmt ptr "('i, 'a) gexpr" tok
  | AssignStmt ptr "('i, 'a) gexpr list" 'a "('i, 'a) gexpr list"
  | GoStmt ptr "('i, 'a) gexpr"
  | DeferStmt ptr "('i, 'a) gexpr"
  | ReturnStmt ptr "('i, 'a) gexpr list"
  | BranchStmt ptr tok "'i option"
  | BlockStmt "('i, 'a) gblock"
  | IfStmt ptr "('i, 'a) gstmt option" "('i, 'a) gexpr" "('i, 'a) gblock"
      "('i, 'a) gstmt option"
  | CaseClause ptr "('i, 'a) gexpr list" "('i, 'a) gstmt list"
  | SwitchStmt ptr "('i, 'a) gstmt option" "('i, 'a) gexpr option" "('i, 'a) gblock"
  | TypeSwitchStmt ptr "('i, 'a) gstmt option" "('i, 'a) gstmt" "('i, 'a) gblock"
  | CommClause ptr "('i, 'a) gstmt option" "('i, 'a) gstmt list"
  | SelectStmt ptr "('i, 'a) gblock"
  | ForStmt ptr "('i, 'a) gstmt option" "('i, 'a) gexpr option" "('i, 'a) gstmt option"
      "('i, 'a) gblock"
  | RangeStmt ptr "('i, 'a) gexpr option" "('i, 'a) gexpr option" tok "('i, 'a) gexpr"
      "('i, 'a) gblock"

type_synonym expr = "(ident, tok) gexpr"

type_synonym field = "(ident, tok) gfield"

type_synonym functype = "(ident, tok) gfunctype"

type_synonym block = "(ident, tok) gblock"

type_synonym spec = "(ident, tok) gspec"

type_synonym stmt = "(ident, tok) gstmt"

text \<open>The address of a statement node, the key of the span table.\<close>

fun addr :: "stmt \<Rightarrow> ptr" where
  "addr (BadStmt p) = p"
| "addr (DeclStmt p _ _) = p"
| "addr (EmptyStmt p) = p"
| "addr (LabeledStmt p _ _) = p"
| "addr (ExprStmt p _) = p"
| "addr (SendStmt p _ _) = p"
| "addr (IncDecStmt p _ _) = p"
| "addr (AssignStmt p _ _ _) = p"
| "addr (GoStmt p _) = p"
| "addr (DeferStmt p _) = p"
| "addr (ReturnStmt p _) = p"
| "addr (BranchStmt p _ _) = p"
| "addr (BlockStmt (Block p _)) = p"
| "addr (IfStmt p _ _ _ _) = p"
| "addr (CaseClause p _ _) = p"
| "addr (SwitchStmt p _ _ _) = p"
| "addr (TypeSwitchStmt p _ _ _) = p"
| "addr (CommClause p _ _) = p"
| "addr (SelectStmt p _) = p"
| "addr (ForStmt p _ _ _ _) = p"
| "addr (RangeStmt p _ _ _ _ _) = p"

text \<open>\<^verbatim>\<open>ast.NewIdent(name)\<close>: a fresh identifier without position and without object.\<close>

definition NewIdent :: "string \<Rightarrow> ident" where
  "NewIdent name = Ident 0 name None"

section \<open>\<^verbatim>\<open>strconv.Itoa\<close> and the value of an integer literal\<close>

definition digit :: "nat \<Rightarrow> char" where
  "digit d = ''0123456789'' ! d"

fun digits :: "nat \<Rightarrow> string" where
  "digits n = (if n < 10 then [digit n] else digits (n div 10) @ [digit (n mod 10)])"

declare digits.simps [simp del]

definition Itoa :: "int \<Rightarrow> string" where
  "Itoa i = (if i < 0 then CHR ''-'' # digits (nat (- i)) else digits (nat i))"

text \<open>The value Go gives a decimal integer literal (with the sign \<^verbatim>\<open>Itoa\<close> may print).\<close>

definition digitval :: "char \<Rightarrow> nat" where
  "digitval c = (of_char c - 48)"

definition natval :: "string \<Rightarrow> nat" where
  "natval s = foldl (\<lambda>a c. 10 * a + digitval c) 0 s"

definition litval :: "string \<Rightarrow> int" where
  "litval s = (case s of [] \<Rightarrow> 0
     | c # cs \<Rightarrow> if c = CHR ''-'' then - int (natval cs) else int (natval s))"

section \<open>Spans and the dispatch compiler\<close>

record span =
  start :: int
  end' :: int

type_synonym spans = "ptr \<rightharpoonup> span"

definition lookup :: "spans \<Rightarrow> stmt \<Rightarrow> span" where
  "lookup sp s = (case sp (addr s) of None \<Rightarrow> \<lparr>start = 0, end' = 0\<rparr> | Some x \<Rightarrow> x)"

definition frameIP :: expr where
  "frameIP = SelectorExpr (Id (NewIdent ''_f'')) (NewIdent ''IP'')"

definition assignIP :: "int \<Rightarrow> stmt" where
  "assignIP v = AssignStmt 0 [frameIP] ASSIGN [BasicLit INT' (Itoa v)]"

definition guardIP :: "int \<Rightarrow> expr" where
  "guardIP v = BinaryExpr frameIP LSS (BasicLit INT' (Itoa v))"

fun compileStatement :: "(stmt \<Rightarrow> stmt) \<Rightarrow> spans \<Rightarrow> stmt \<Rightarrow> stmt"
  and compileBlock :: "(stmt \<Rightarrow> stmt) \<Rightarrow> spans \<Rightarrow> block \<Rightarrow> block"
  and compileDispatch :: "(stmt \<Rightarrow> stmt) \<Rightarrow> spans \<Rightarrow> stmt list \<Rightarrow> stmt"
  and dispatchCases :: "(stmt \<Rightarrow> stmt) \<Rightarrow> spans \<Rightarrow> nat \<Rightarrow> nat \<Rightarrow> stmt list \<Rightarrow> stmt list"
where
  "compileStatement un sp (BlockStmt b) = BlockStmt (compileBlock un sp b)"
| "compileStatement un sp (IfStmt p init c body els) =
     IfStmt p init c (compileBlock un sp body) els"
| "compileStatement un sp (ForStmt p init c post body) =
     (case compileBlock un sp body of
        Block bp lst \<Rightarrow>
          ForStmt p init c post
            (Block bp (lst @ [assignIP (start (lookup sp (ForStmt p init c post body)))])))"
| "compileStatement un sp (SwitchStmt p init tag (Block bp lst)) =
     SwitchStmt p init tag (Block bp (map (compileStatement un sp) lst))"
| "compileStatement un sp (CaseClause p l body) =
     (case body of
        [] \<Rightarrow> CaseClause p l []
      | [x] \<Rightarrow> CaseClause p l [un (compileStatement un sp x)]
      | x # y # zs \<Rightarrow>
          CaseClause p l
[compileDispatch un sp body])"
| "compileStatement un sp s = s"
| "compileBlock un sp (Block p lst) =
     (case lst of
        [] \<Rightarrow> Block p []
      | [x] \<Rightarrow> Block p [un (compileStatement un sp x)]
      | x # y # zs \<Rightarrow>
          Block 0 [compileDispatch un sp lst])"
| "compileDispatch un sp stmts =
     SwitchStmt 0 None None (Block 0 (dispatchCases un sp (length stmts) 0 stmts))"
| "dispatchCases un sp n i [] = []"
| "dispatchCases un sp n i (child # rest) =
     CaseClause 0 [guardIP (end' (lookup sp child))]
       (un (compileStatement un sp child) #
        (if int i < int n - 1
         then [assignIP (end' (lookup sp child)), BranchStmt 0 FALLTHROUGH None]
         else []))
     # dispatchCases un sp n (Suc i) rest"

section \<open>Running a dispatch block\<close>

text \<open>
  The part of Go's semantics the dispatch block relies on: a \<^verbatim>\<open>switch\<close> without tag
  takes the first clause whose guard is true, and a clause that ends in
  \<^verbatim>\<open>fallthrough\<close> continues with the body of the next clause without looking at its
  guard.  The guards the compiler emits compare \<^verbatim>\<open>_f.IP\<close> with an integer literal.
  The run of a switch is the list of the statements it executes, in order, every
  statement taken to complete normally.
\<close>

fun evalGuard :: "int \<Rightarrow> expr \<Rightarrow> bool option" where
  "evalGuard ip (BinaryExpr x op (BasicLit k v)) =
     (if x = frameIP \<and> k = INT' \<and> op = LSS then Some (ip < litval v)
      else if x = frameIP \<and> k = INT' \<and> op = GTR then Some (ip > litval v)
      else None)"
| "evalGuard ip e = None"

fun selectClause :: "int \<Rightarrow> stmt list \<Rightarrow> stmt list option" where
  "selectClause ip [] = Some []"
| "selectClause ip (CaseClause p [g] body # rest) =
     (case evalGuard ip g of
        None \<Rightarrow> None
      | Some True \<Rightarrow> Some (CaseClause p [g] body # rest)
      | Some False \<Rightarrow> selectClause ip rest)"
| "selectClause ip (s # rest) = None"

fun isFallthrough :: "stmt \<Rightarrow> bool" where
  "isFallthrough (BranchStmt p t l) = (t = FALLTHROUGH)"
| "isFallthrough s = False"

fun runClauses :: "stmt list \<Rightarrow> stmt list" where
  "runClauses [] = []"
| "runClauses (CaseClause p g body # rest) =
     body @ (if body \<noteq> [] \<and> isFallthrough (last body) then runClauses rest else [])"
| "runClauses (s # rest) = []"

fun execSwitch :: "int \<Rightarrow> stmt \<Rightarrow> stmt list option" where
  "execSwitch ip (SwitchStmt p None None (Block bp clauses)) =
     map_option runClauses (selectClause ip clauses)"
| "execSwitch ip s = None"

text \<open>
  Modelled from the spec: \<^verbatim>\<open>trackSpans\<close>, which fills the span table, is not among the
  sources.  Section 4.4 of the specification promises that the ranges within one
  statement list are disjoint and ordered exactly as the statements appear.  A range
  \<open>[start, end)\<close> may be empty: a leaf takes one counter value, and the range of a
  block is the union of the ranges of its children, which is empty for a block without
  statements.  \<open>ordered_spans\<close> says of the spans of a list that every range is
  well-formed and that no range begins before the one in front of it has ended.
\<close>

fun ordered_spans :: "span list \<Rightarrow> bool" where
  "ordered_spans [] = True"
| "ordered_spans [a] = (start a \<le> end' a)"
| "ordered_spans (a # b # r) = (start a \<le> end' a \<and> end' a \<le> start b \<and> ordered_spans (b # r))"

text \<open>
  The index of the first statement of a list whose guard \<^verbatim>\<open>_f.IP < end\<close> holds for a
  given instruction pointer: the number of statements at the head of the list whose
  span end is at most the instruction pointer.
\<close>

definition resumePoint :: "spans \<Rightarrow> int \<Rightarrow> stmt list \<Rightarrow> nat" where
  "resumePoint sp ip lst = length (takeWhile (\<lambda>s. end' (lookup sp s) \<le> ip) lst)"

fun clauseBody :: "stmt \<Rightarrow> stmt list" where
  "clauseBody (CaseClause p g body) = body"
| "clauseBody s = []"

definition spans3 :: spans where
  "spans3 = [1 \<mapsto> \<lparr>start = 1, end' = 2\<rparr>, 2 \<mapsto> \<lparr>start = 2, end' = 3\<rparr>,
             3 \<mapsto> \<lparr>start = 3, end' = 4\<rparr>]"

text \<open>
  Three statements \<^verbatim>\<open>a(); {}; b()\<close> with the ranges of section 4.4: one counter value
  for each call, the empty range for the block without statements.
\<close>

definition callStmt :: "ptr \<Rightarrow> string \<Rightarrow> stmt" where
  "callStmt p f = ExprStmt p (CallExpr (Id (Ident p f None)) [])"

definition listGap :: "stmt list" where
  "listGap = [callStmt 1 ''a'', BlockStmt (Block 2 []), callStmt 3 ''b'']"

definition spansGap :: spans where
  "spansGap = [1 \<mapsto> \<lparr>start = 0, end' = 1\<rparr>, 2 \<mapsto> \<lparr>start = 1, end' = 1\<rparr>,
               3 \<mapsto> \<lparr>start = 1, end' = 2\<rparr>]"

text \<open>
  A loop \<^verbatim>\<open>for { a(); b() }\<close> with the ranges of section 4.4: one counter value for each
  call, their union \<open>[0, 2)\<close> for the body block and for the loop.
\<close>

definition spansLoop :: spans where
  "spansLoop = [1 \<mapsto> \<lparr>start = 0, end' = 2\<rparr>, 2 \<mapsto> \<lparr>start = 0, end' = 2\<rparr>,
                3 \<mapsto> \<lparr>start = 0, end' = 1\<rparr>, 4 \<mapsto> \<lparr>start = 1, end' = 2\<rparr>]"

definition loopBody :: block where
  "loopBody = Block 2 [callStmt 3 ''a'', callStmt 4 ''b'']"

section \<open>Function declarations and the traversal of \<^verbatim>\<open>ast.Inspect\<close>\<close>

record funcdecl =
  Recv :: "field list option"
  Name' :: ident
  Type :: functype
  Body :: "block option"

text \<open>
  The nodes \<^verbatim>\<open>ast.Walk\<close> hands to a visitor.  A block is handed over as the statement
  it is, a function type and an identifier as the expressions they are.
\<close>

datatype node =
    NExpr expr
  | NStmt stmt
  | NField field
  | NFieldList "field list"
  | NSpec spec
  | NGenDecl tok "spec list"
  | NFuncDecl funcdecl

datatype walk = Walk node "walk list"

definition opt :: "'a option \<Rightarrow> 'a list" where
  "opt x = (case x of None \<Rightarrow> [] | Some y \<Rightarrow> [y])"

definition fieldList :: "field list option \<Rightarrow> walk list option \<Rightarrow> walk list" where
  "fieldList fl ws =
     (case (fl, ws) of (Some fs, Some ts) \<Rightarrow> [Walk (NFieldList fs) ts] | _ \<Rightarrow> [])"

definition leaf :: "ident \<Rightarrow> walk" where
  "leaf i = Walk (NExpr (Id i)) []"

primrec walkExpr :: "expr \<Rightarrow> walk"
  and walkField :: "field \<Rightarrow> walk"
  and walkFuncType :: "functype \<Rightarrow> walk"
  and walkBlock :: "block \<Rightarrow> walk"
  and walkSpec :: "spec \<Rightarrow> walk"
  and walkStmt :: "stmt \<Rightarrow> walk"
where
  "walkExpr BadExpr = Walk (NExpr BadExpr) []"
| "walkExpr (Id i) = Walk (NExpr (Id i)) []"
| "walkExpr (BasicLit k v) = Walk (NExpr (BasicLit k v)) []"
| "walkExpr (FuncLit t b) = Walk (NExpr (FuncLit t b)) [walkFuncType t, walkBlock b]"
| "walkExpr (CompositeLit t elts) =
     Walk (NExpr (CompositeLit t elts)) (opt (map_option walkExpr t) @ map walkExpr elts)"
| "walkExpr (ParenExpr x) = Walk (NExpr (ParenExpr x)) [walkExpr x]"
| "walkExpr (SelectorExpr x sel) = Walk (NExpr (SelectorExpr x sel)) [walkExpr x, leaf sel]"
| "walkExpr (IndexExpr x i) = Walk (NExpr (IndexExpr x i)) [walkExpr x, walkExpr i]"
| "walkExpr (IndexListExpr x is) =
     Walk (NExpr (IndexListExpr x is)) (walkExpr x # map walkExpr is)"
| "walkExpr (TypeAssertExpr x t) =
     Walk (NExpr (TypeAssertExpr x t)) (walkExpr x # opt (map_option walkExpr t))"
| "walkExpr (CallExpr f args) = Walk (NExpr (CallExpr f args)) (walkExpr f # map walkExpr args)"
| "walkExpr (StarExpr x) = Walk (NExpr (StarExpr x)) [walkExpr x]"
| "walkExpr (UnaryExpr op x) = Walk (NExpr (UnaryExpr op x)) [walkExpr x]"
| "walkExpr (BinaryExpr x op y) = Walk (NExpr (BinaryExpr x op y)) [walkExpr x, walkExpr y]"
| "walkExpr (KeyValueExpr k v) = Walk (NExpr (KeyValueExpr k v)) [walkExpr k, walkExpr v]"
| "walkExpr (ArrayType l elt) =
     Walk (NExpr (ArrayType l elt)) (opt (map_option walkExpr l) @ [walkExpr elt])"
| "walkExpr (FuncTypeExpr t) = walkFuncType t"
| "walkExpr (MapType k v) = Walk (NExpr (MapType k v)) [walkExpr k, walkExpr v]"
| "walkField (Field names t) =
     Walk (NField (Field names t)) (map leaf names @ opt (map_option walkExpr t))"
| "walkFuncType (FuncType params results) =
     Walk (NExpr (FuncTypeExpr (FuncType params results)))
       (fieldList params (map_option (map walkField) params) @
        fieldList results (map_option (map walkField) results))"
| "walkBlock (Block p lst) = Walk (NStmt (BlockStmt (Block p lst))) (map walkStmt lst)"
| "walkSpec (ImportSpec path) = Walk (NSpec (ImportSpec path)) [walkExpr path]"
| "walkSpec (ValueSpec names t vals) =
     Walk (NSpec (ValueSpec names t vals))
       (map leaf names @ opt (map_option walkExpr t) @ map walkExpr vals)"
| "walkStmt (BadStmt p) = Walk (NStmt (BadStmt p)) []"
| "walkStmt (DeclStmt p k specs) =
     Walk (NStmt (DeclStmt p k specs)) [Walk (NGenDecl k specs) (map walkSpec specs)]"
| "walkStmt (EmptyStmt p) = Walk (NStmt (EmptyStmt p)) []"
| "walkStmt (LabeledStmt p l s) = Walk (NStmt (LabeledStmt p l s)) [leaf l, walkStmt s]"
| "walkStmt (ExprStmt p x) = Walk (NStmt (ExprStmt p x)) [walkExpr x]"
| "walkStmt (SendStmt p c v) = Walk (NStmt (SendStmt p c v)) [walkExpr c, walkExpr v]"
| "walkStmt (IncDecStmt p x k) = Walk (NStmt (IncDecStmt p x k)) [walkExpr x]"
| "walkStmt (AssignStmt p lhs k rhs) =
     Walk (NStmt (AssignStmt p lhs k rhs)) (map walkExpr lhs @ map walkExpr rhs)"
| "walkStmt (GoStmt p c) = Walk (NStmt (GoStmt p c)) [walkExpr c]"
| "walkStmt (DeferStmt p c) = Walk (NStmt (DeferStmt p c)) [walkExpr c]"
| "walkStmt (ReturnStmt p rs) = Walk (NStmt (ReturnStmt p rs)) (map walkExpr rs)"
| "walkStmt (BranchStmt p k l) = Walk (NStmt (BranchStmt p k l)) (map leaf (opt l))"
| "walkStmt (BlockStmt b) = walkBlock b"
| "walkStmt (IfStmt p init c body els) =
     Walk (NStmt (IfStmt p init c body els))
       (opt (map_option walkStmt init) @ [walkExpr c, walkBlock body] @
        opt (map_option walkStmt els))"
| "walkStmt (CaseClause p l body) =
     Walk (NStmt (CaseClause p l body)) (map walkExpr l @ map walkStmt body)"
| "walkStmt (SwitchStmt p init tag body) =
     Walk (NStmt (SwitchStmt p init tag body))
       (opt (map_option walkStmt init) @ opt (map_option walkExpr tag) @ [walkBlock body])"
| "walkStmt (TypeSwitchStmt p init a body) =
     Walk (NStmt (TypeSwitchStmt p init a body))
       (opt (map_option walkStmt init) @ [walkStmt a, walkBlock body])"
| "walkStmt (CommClause p c body) =
     Walk (NStmt (CommClause p c body)) (opt (map_option walkStmt c) @ map walkStmt body)"
| "walkStmt (SelectStmt p body) = Walk (NStmt (SelectStmt p body)) [walkBlock body]"
| "walkStmt (ForStmt p init c post body) =
     Walk (NStmt (ForStmt p init c post body))
       (opt (map_option walkStmt init) @ opt (map_option walkExpr c) @
        opt (map_option walkStmt post) @ [walkBlock body])"
| "walkStmt (RangeStmt p k v t x body) =
     Walk (NStmt (RangeStmt p k v t x body))
       (opt (map_option walkExpr k) @ opt (map_option walkExpr v) @
        [walkExpr x, walkBlock body])"

definition walkFuncDecl :: "funcdecl \<Rightarrow> walk" where
  "walkFuncDecl d =
     Walk (NFuncDecl d)
       (fieldList (Recv d) (map_option (map walkField) (Recv d)) @
        [leaf (Name' d), walkFuncType (Type d)] @
        opt (map_option walkBlock (Body d)))"

text \<open>
  \<^verbatim>\<open>ast.Inspect(root, f)\<close>: \<open>f\<close> is called on a node, and on its children, in order,
  when it returned true.  The variables the Go closure captures are the state \<open>'s\<close>.
  (The closing call \<open>f(nil)\<close> is left out: none of the closures below reacts to it.)
\<close>

fun Inspect :: "(node \<Rightarrow> 's \<Rightarrow> bool \<times> 's) \<Rightarrow> walk \<Rightarrow> 's \<Rightarrow> 's" where
  "Inspect f (Walk n ts) s =
     (case f n s of
        (True, s') \<Rightarrow> fold (Inspect f) ts s'
      | (False, s') \<Rightarrow> s')"

fun nodes :: "walk \<Rightarrow> node list" where
  "nodes (Walk n ts) = n # concat (map nodes ts)"

section \<open>Type information and errors\<close>

text \<open>
  What the validators read of \<^verbatim>\<open>go/types\<close>: the kind of a type, and of the object an
  identifier denotes (with the address of the object, objects being compared by
  pointer).  \<open>NoType\<close> and \<open>None\<close> stand for Go's \<^verbatim>\<open>nil\<close>.
\<close>

datatype gotype =
    Basic string | Named string | Pointer gotype | Array int gotype | Slice gotype
  | Map gotype gotype | Chan gotype | Struct | Interface | Signature | Tuple | NoType

datatype tobject =
    TypeName ptr | PkgName ptr string | Builtin ptr | Func ptr | Var ptr | Const ptr

record typesInfo =
  TypeOf :: "expr \<Rightarrow> gotype"
  ObjectOf :: "ident \<Rightarrow> tobject option"

datatype decl = FuncDecl funcdecl | GenDecl tok "spec list"

record package =
  PackageName :: string
  GoFiles :: "string list"
  Syntax :: "decl list list"
  TypesInfo :: typesInfo

text \<open>An error value returned, or a run-time panic of the compiler itself.\<close>

datatype error = Error string | Panic string

text \<open>What \<^verbatim>\<open>%T\<close> prints for the values the error messages format.\<close>

fun typeT :: "gotype \<Rightarrow> string" where
  "typeT (Basic n) = ''*types.Basic''"
| "typeT (Named n) = ''*types.Named''"
| "typeT (Pointer t) = ''*types.Pointer''"
| "typeT (Array n t) = ''*types.Array''"
| "typeT (Slice t) = ''*types.Slice''"
| "typeT (Map k v) = ''*types.Map''"
| "typeT (Chan t) = ''*types.Chan''"
| "typeT Struct = ''*types.Struct''"
| "typeT Interface = ''*types.Interface''"
| "typeT Signature = ''*types.Signature''"
| "typeT Tuple = ''*types.Tuple''"
| "typeT NoType = ''<nil>''"

fun exprT :: "expr \<Rightarrow> string" where
  "exprT BadExpr = ''*ast.BadExpr''"
| "exprT (Id i) = ''*ast.Ident''"
| "exprT (BasicLit k v) = ''*ast.BasicLit''"
| "exprT (FuncLit t b) = ''*ast.FuncLit''"
| "exprT (CompositeLit t elts) = ''*ast.CompositeLit''"
| "exprT (ParenExpr x) = ''*ast.ParenExpr''"
| "exprT (SelectorExpr x sel) = ''*ast.SelectorExpr''"
| "exprT (IndexExpr x i) = ''*ast.IndexExpr''"
| "exprT (IndexListExpr x is) = ''*ast.IndexListExpr''"
| "exprT (TypeAssertExpr x t) = ''*ast.TypeAssertExpr''"
| "exprT (CallExpr f args) = ''*ast.CallExpr''"
| "exprT (StarExpr x) = ''*ast.StarExpr''"
| "exprT (UnaryExpr op x) = ''*ast.UnaryExpr''"
| "exprT (BinaryExpr x op y) = ''*ast.BinaryExpr''"
| "exprT (KeyValueExpr k v) = ''*ast.KeyValueExpr''"
| "exprT (ArrayType l elt) = ''*ast.ArrayType''"
| "exprT (FuncTypeExpr t) = ''*ast.FuncType''"
| "exprT (MapType k v) = ''*ast.MapType''"

fun stmtT :: "stmt \<Rightarrow> string" where
  "stmtT (BadStmt p) = ''*ast.BadStmt''"
| "stmtT (DeclStmt p k specs) = ''*ast.DeclStmt''"
| "stmtT (EmptyStmt p) = ''*ast.EmptyStmt''"
| "stmtT (LabeledStmt p l s) = ''*ast.LabeledStmt''"
| "stmtT (ExprStmt p x) = ''*ast.ExprStmt''"
| "stmtT (SendStmt p c v) = ''*ast.SendStmt''"
| "stmtT (IncDecStmt p x k) = ''*ast.IncDecStmt''"
| "stmtT (AssignStmt p lhs k rhs) = ''*ast.AssignStmt''"
| "stmtT (GoStmt p c) = ''*ast.GoStmt''"
| "stmtT (DeferStmt p c) = ''*ast.DeferStmt''"
| "stmtT (ReturnStmt p rs) = ''*ast.ReturnStmt''"
| "stmtT (BranchStmt p k l) = ''*ast.BranchStmt''"
| "stmtT (BlockStmt b) = ''*ast.BlockStmt''"
| "stmtT (IfStmt p init c body els) = ''*ast.IfStmt''"
| "stmtT (CaseClause p l body) = ''*ast.CaseClause''"
| "stmtT (SwitchStmt p init tag body) = ''*ast.SwitchStmt''"
| "stmtT (TypeSwitchStmt p init a body) = ''*ast.TypeSwitchStmt''"
| "stmtT (CommClause p c body) = ''*ast.CommClause''"
| "stmtT (SelectStmt p body) = ''*ast.SelectStmt''"
| "stmtT (ForStmt p init c post body) = ''*ast.ForStmt''"
| "stmtT (RangeStmt p k v t x body) = ''*ast.RangeStmt''"

section \<open>The validation pass inside \<^verbatim>\<open>compilePackage\<close>\<close>

text \<open>
  The closure of lines 200 to 278 of \<^verbatim>\<open>compile.go\<close>: \<open>rejectStmt\<close> is its switch on the
  statement, giving the new value of the captured \<^verbatim>\<open>err\<close>; \<open>gate\<close> is the closure.
  It returns true on every node that is not a statement, and \<^verbatim>\<open>err == nil\<close> on a
  statement.  \<^verbatim>\<open>n.Lhs[0]\<close> panics on an assignment without targets.
\<close>

fun forPost :: "stmt option \<Rightarrow> error option \<Rightarrow> error option" where
  "forPost None err = err"
| "forPost (Some (IncDecStmt q x k)) err =
     (case x of
        Id i \<Rightarrow> err
      | _ \<Rightarrow> Some (Error (''not implemented: for post inc/dec '' @ exprT x)))"
| "forPost (Some s) err = Some (Error (''not implemented: for post '' @ stmtT s))"

fun rejectStmt :: "package \<Rightarrow> stmt \<Rightarrow> error option \<Rightarrow> error option" where
  "rejectStmt p (DeferStmt q c) err = Some (Error ''not implemented: defer'')"
| "rejectStmt p (GoStmt q c) err = Some (Error ''not implemented: go'')"
| "rejectStmt p (LabeledStmt q l s) err = Some (Error ''not implemented: labels'')"
| "rejectStmt p (TypeSwitchStmt q init a body) err = Some (Error ''not implemented: type switch'')"
| "rejectStmt p (SelectStmt q body) err = Some (Error ''not implemented: select'')"
| "rejectStmt p (CommClause q c body) err = Some (Error ''not implemented: select case'')"
| "rejectStmt p (DeclStmt q k specs) err = Some (Error ''not implemented: inline decls'')"
| "rejectStmt p (RangeStmt q k v t x body) err =
     (case TypeOf (TypesInfo p) x of
        Array n e \<Rightarrow> err
      | Slice e \<Rightarrow> err
      | t \<Rightarrow> Some (Error (''not implemented: for range for '' @ typeT t)))"
| "rejectStmt p (AssignStmt q lhs t rhs) err =
     (let err1 = (if length lhs \<noteq> 1 \<or> length lhs \<noteq> length rhs
                  then Some (Error ''not implemented: multiple assign'') else err)
      in case lhs of
           [] \<Rightarrow> Some (Panic ''index out of range'')
         | Id i # r \<Rightarrow> err1
         | x # r \<Rightarrow> Some (Error ''not implemented: assign to non-ident''))"
| "rejectStmt p (BranchStmt q t label) err =
     (if t = GOTO then Some (Error ''not implemented: goto'')
      else if t = FALLTHROUGH then Some (Error ''not implemented: fallthrough'')
      else if t = BREAK then Some (Error ''not implemented: break'')
      else if t = CONTINUE then Some (Error ''not implemented: continue'')
      else if label \<noteq> None then Some (Error ''not implemented: labeled branch'')
      else err)"
| "rejectStmt p (ForStmt q init c post body) err = forPost post err"
| "rejectStmt p (BlockStmt b) err = err"
| "rejectStmt p (CaseClause q l body) err = err"
| "rejectStmt p (EmptyStmt q) err = err"
| "rejectStmt p (ExprStmt q x) err = err"
| "rejectStmt p (IfStmt q init c body els) err = err"
| "rejectStmt p (IncDecStmt q x k) err = err"
| "rejectStmt p (ReturnStmt q rs) err = err"
| "rejectStmt p (SendStmt q c v) err = err"
| "rejectStmt p (SwitchStmt q init tag body) err = err"
| "rejectStmt p s err = Some (Error (''not implmemented: ast.Stmt('' @ stmtT s @ '')''))"

definition gate :: "package \<Rightarrow> node \<Rightarrow> error option \<Rightarrow> bool \<times> error option" where
  "gate p n err =
     (case err of
        Some (Panic m) \<Rightarrow> (False, err)
      | _ \<Rightarrow>
        (case n of
           NStmt stmt \<Rightarrow> (let err' = rejectStmt p stmt err in (err' = None, err'))
         | _ \<Rightarrow> (True, err)))"

definition validate :: "package \<Rightarrow> funcdecl \<Rightarrow> error option" where
  "validate p d = Inspect (gate p) (walkFuncDecl d) None"

section \<open>The validation pass \<^verbatim>\<open>unsupported\<close>\<close>

text \<open>
  \<^verbatim>\<open>countFunctionCalls\<close>: every call counts but a call of an identifier that denotes
  the object the universe scope has under that name (\<open>U\<close> is
  \<^verbatim>\<open>types.Universe.Lookup\<close>, a parameter), of an identifier that denotes a type
  name, or of a member of package \<^verbatim>\<open>unsafe\<close>.
\<close>

fun skipCall :: "(string \<Rightarrow> tobject option) \<Rightarrow> typesInfo \<Rightarrow> expr \<Rightarrow> bool" where
  "skipCall U info (Id f) =
     (let obj = ObjectOf info f in
      if U (Name f) = obj then True
      else (case obj of Some (TypeName a) \<Rightarrow> True | _ \<Rightarrow> False))"
| "skipCall U info (SelectorExpr (Id x) sel) =
     (case ObjectOf info x of
        Some (PkgName a pkgPath) \<Rightarrow> pkgPath = ''unsafe''
      | _ \<Rightarrow> False)"
| "skipCall U info f = False"

fun countCall :: "(string \<Rightarrow> tobject option) \<Rightarrow> typesInfo \<Rightarrow> node \<Rightarrow> nat \<Rightarrow> bool \<times> nat" where
  "countCall U info (NExpr (CallExpr f args)) count =
     (if skipCall U info f then (True, count) else (True, count + 1))"
| "countCall U info n count = (True, count)"

definition countFunctionCalls :: "(string \<Rightarrow> tobject option) \<Rightarrow> typesInfo \<Rightarrow> expr \<Rightarrow> nat" where
  "countFunctionCalls U info expr = Inspect (countCall U info) (walkExpr expr) 0"

fun labeled :: "stmt \<Rightarrow> error option \<Rightarrow> error option" where
  "labeled (ForStmt q init c post body) err = err"
| "labeled (SwitchStmt q init tag body) err = err"
| "labeled (TypeSwitchStmt q init a body) err = err"
| "labeled (SelectStmt q body) err = err"
| "labeled s err = Some (Error ''not implemented: labels not attached to for/switch/select'')"

fun unsupportedStmt :: "stmt \<Rightarrow> error option \<Rightarrow> error option" where
  "unsupportedStmt (DeferStmt q c) err = Some (Error ''not implemented: defer'')"
| "unsupportedStmt (GoStmt q c) err = Some (Error ''not implemented: go'')"
| "unsupportedStmt (SelectStmt q body) err = Some (Error ''not implemented: select'')"
| "unsupportedStmt (CommClause q c body) err = Some (Error ''not implemented: select case'')"
| "unsupportedStmt (BranchStmt q t label) err =
     (if t = GOTO then Some (Error ''not implemented: goto'')
      else if t = FALLTHROUGH then Some (Error ''not implemented: fallthrough'')
      else err)"
| "unsupportedStmt (LabeledStmt q l s) err = labeled s err"
| "unsupportedStmt (ForStmt q init c post body) err = forPost post err"
| "unsupportedStmt (AssignStmt q lhs t rhs) err = err"
| "unsupportedStmt (BlockStmt b) err = err"
| "unsupportedStmt (CaseClause q l body) err = err"
| "unsupportedStmt (DeclStmt q k specs) err = err"
| "unsupportedStmt (EmptyStmt q) err = err"
| "unsupportedStmt (ExprStmt q x) err = err"
| "unsupportedStmt (IfStmt q init c body els) err = err"
| "unsupportedStmt (IncDecStmt q x k) err = err"
| "unsupportedStmt (RangeStmt q k v t x body) err = err"
| "unsupportedStmt (ReturnStmt q rs) err = err"
| "unsupportedStmt (SendStmt q c v) err = err"
| "unsupportedStmt (SwitchStmt q init tag body) err = err"
| "unsupportedStmt (TypeSwitchStmt q init a body) err = err"
| "unsupportedStmt s err = Some (Error (''not implmemented: ast.Stmt('' @ stmtT s @ '')''))"

fun unsupportedExpr ::
  "(string \<Rightarrow> tobject option) \<Rightarrow> typesInfo \<Rightarrow> expr \<Rightarrow> error option \<Rightarrow> error option" where
  "unsupportedExpr U info nn err =
     (let err1 = (case nn of
                    FuncLit t b \<Rightarrow> Some (Error ''not implemented: func literals'')
                  | _ \<Rightarrow> err)
      in if countFunctionCalls U info nn > 1
         then Some (Error ''not implemented: multiple function calls in an expression'')
         else err1)"

fun unsupportedNode ::
  "(string \<Rightarrow> tobject option) \<Rightarrow> typesInfo \<Rightarrow> node \<Rightarrow> error option \<Rightarrow> bool \<times> error option"
where
  "unsupportedNode U info (NExpr nn) err =
     (let err' = unsupportedExpr U info nn err in (err' = None, err'))"
| "unsupportedNode U info (NStmt nn) err =
     (let err' = unsupportedStmt nn err in (err' = None, err'))"
| "unsupportedNode U info n err = (err = None, err)"

definition unsupported ::
  "(string \<Rightarrow> tobject option) \<Rightarrow> funcdecl \<Rightarrow> typesInfo \<Rightarrow> error option" where
  "unsupported U decl info = Inspect (unsupportedNode U info) (walkFuncDecl decl) None"

section \<open>\<^verbatim>\<open>compileFunction\<close>\<close>

text \<open>
  Functions of the package that are not among the sources at hand are parameters:
  \<^verbatim>\<open>desugar\<close>, \<^verbatim>\<open>trackSpans\<close>, \<^verbatim>\<open>unnestBlocks\<close> and \<^verbatim>\<open>typeExpr\<close>.
\<close>

record helpers =
  desugar :: "block \<Rightarrow> typesInfo \<Rightarrow> block"
  trackSpans :: "stmt \<Rightarrow> spans"
  unnestBlocks :: "stmt \<Rightarrow> stmt"
  typeExpr :: "gotype \<Rightarrow> expr"

text \<open>A color: the signature of the instance of \<^verbatim>\<open>Yield\<close> a function reaches.\<close>

record signature =
  Params :: "gotype list"
  Results :: "gotype list"

definition At :: "'a list \<Rightarrow> nat \<Rightarrow> 'a option" where
  "At xs i = (if i < length xs then Some (xs ! i) else None)"

text \<open>
  Lines 367 to 390: the first \<^verbatim>\<open>ast.Inspect\<close> over the body.  Its closure captures
  \<^verbatim>\<open>objectVars\<close>, \<^verbatim>\<open>varNames\<close> and \<^verbatim>\<open>varTypes\<close>; the state \<open>None\<close> is the panic of
  \<^verbatim>\<open>n.Lhs[0].(*ast.Ident)\<close>.  The assignment \<^verbatim>\<open>n.Tok = token.ASSIGN\<close> it makes on
  the way is \<open>assignTok\<close>, mapped over the body.
\<close>

record scanState =
  objectVars :: "nat \<rightharpoonup> ident"
  varNames :: "ident list"
  varTypes :: "gotype list"

definition scanAssign :: "package \<Rightarrow> node \<Rightarrow> scanState option \<Rightarrow> bool \<times> scanState option" where
  "scanAssign p node st =
     (case st of
        None \<Rightarrow> (False, None)
      | Some s \<Rightarrow>
        (case node of
           NStmt (AssignStmt q lhs t rhs) \<Rightarrow>
             (case lhs of
                Id name # r \<Rightarrow>
                  (case Obj name of
                     None \<Rightarrow> (True, Some s)
                   | Some ob \<Rightarrow>
                       if objectVars s ob \<noteq> None then (True, Some s)
                       else
                         let varName = NewIdent (''_v'' @ Itoa (int (length (varNames s))))
                         in (True, Some \<lparr>objectVars = (objectVars s)(ob \<mapsto> varName),
                                         varNames = varNames s @ [varName],
                                         varTypes = varTypes s @ [TypeOf (TypesInfo p) (Id name)]\<rparr>))
              | _ \<Rightarrow> (False, None))
         | _ \<Rightarrow> (True, Some s)))"

definition assignTok :: "tok \<Rightarrow> tok" where
  "assignTok t = (if t = DEFINE then ASSIGN else t)"

text \<open>Lines 391 to 398: the second \<^verbatim>\<open>ast.Inspect\<close>, on every identifier of the body.\<close>

definition replaceIdent :: "(nat \<rightharpoonup> ident) \<Rightarrow> ident \<Rightarrow> ident" where
  "replaceIdent ov i =
     (case Obj i of
        None \<Rightarrow> i
      | Some ob \<Rightarrow>
        (case ov ob of
           None \<Rightarrow> i
         | Some replacement \<Rightarrow> Ident (NamePos i) (Name replacement) (Obj i)))"

text \<open>Lines 400 to 410.\<close>

definition declareVars :: "helpers \<Rightarrow> ident list \<Rightarrow> gotype list \<Rightarrow> stmt list" where
  "declareVars h vn vt =
     (if length vt > 0
      then [DeclStmt 0 VAR
              (map (\<lambda>i. ValueSpec [vn ! i] (Some (typeExpr h (vt ! i))) []) [0..<length vt])]
      else [])"

text \<open>Lines 412 to 438.\<close>

definition fieldNames :: "field list option \<Rightarrow> ident list" where
  "fieldNames fl =
     (case fl of
        None \<Rightarrow> []
      | Some fs \<Rightarrow>
          concat (map (\<lambda>f. case f of Field names t \<Rightarrow> filter (\<lambda>name. Name name \<noteq> ''_'') names) fs))"

definition saveAndRestoreNames :: "funcdecl \<Rightarrow> ident list \<Rightarrow> ident list" where
  "saveAndRestoreNames fn vn =
     (case Type fn of
        FuncType params results \<Rightarrow> fieldNames params @ fieldNames results @ vn)"

definition saveAndRestoreTypes :: "package \<Rightarrow> funcdecl \<Rightarrow> gotype list \<Rightarrow> gotype list" where
  "saveAndRestoreTypes p fn vt =
     (case Type fn of
        FuncType params results \<Rightarrow>
          map (\<lambda>name. TypeOf (TypesInfo p) (Id name)) (fieldNames params @ fieldNames results) @ vt)"

text \<open>Lines 440 to 471.\<close>

definition restoreStmts :: "helpers \<Rightarrow> ident list \<Rightarrow> gotype list \<Rightarrow> stmt list" where
  "restoreStmts h names types =
     map (\<lambda>i. AssignStmt 0 [Id (names ! i)] ASSIGN
                [TypeAssertExpr
                   (CallExpr (SelectorExpr (Id (NewIdent ''_f'')) (NewIdent ''Get''))
                      [BasicLit INT' (Itoa (int i))])
                   (Some (typeExpr h (types ! i)))])
       [0..<length names]"

definition restoreState :: "helpers \<Rightarrow> ident list \<Rightarrow> gotype list \<Rightarrow> stmt" where
  "restoreState h names types =
     IfStmt 0 None
       (BinaryExpr (SelectorExpr (Id (NewIdent ''_f'')) (NewIdent ''IP'')) GTR
          (BasicLit INT' ''0''))
       (Block 0 (restoreStmts h names types)) None"

text \<open>Lines 473 to 505.\<close>

definition saveStmts :: "ident list \<Rightarrow> stmt list" where
  "saveStmts names =
     map (\<lambda>i. ExprStmt 0
                (CallExpr (SelectorExpr (Id (NewIdent ''_f'')) (NewIdent ''Set''))
                   [BasicLit INT' (Itoa (int i)), Id (names ! i)]))
       [0..<length names]"

definition saveState :: "ident list \<Rightarrow> stmt" where
  "saveState names =
     DeferStmt 0
       (CallExpr
          (FuncLit (FuncType None None)
             (Block 0
                [IfStmt 0 None
                   (CallExpr (SelectorExpr (Id (NewIdent ''_c'')) (NewIdent ''Unwinding'')) [])
                   (Block 0 (saveStmts names))
                   (Some (BlockStmt (Block 0
                      [ExprStmt 0
                         (CallExpr (SelectorExpr (Id (NewIdent ''_c'')) (NewIdent ''Pop''))
                            [])])))]))
          [])"

text \<open>Lines 336 to 362.\<close>

definition loadContext :: "expr list \<Rightarrow> stmt" where
  "loadContext yieldTypeExpr =
     AssignStmt 0 [Id (NewIdent ''_c'')] DEFINE
       [CallExpr
          (IndexListExpr
             (SelectorExpr (Id (NewIdent ''coroutine'')) (NewIdent ''LoadContext''))
             yieldTypeExpr)
          []]"

definition pushFrame :: stmt where
  "pushFrame =
     AssignStmt 0 [Id (NewIdent ''_f'')] DEFINE
       [CallExpr (SelectorExpr (Id (NewIdent ''_c'')) (NewIdent ''Push'')) []]"

text \<open>
  The function as a whole.  \<open>None\<close> is a panic: a color without parameter or result,
  a declaration without body, the panic of the scan, or a failed
  \<^verbatim>\<open>.(*ast.BlockStmt)\<close>.
\<close>

definition compileFunction ::
  "helpers \<Rightarrow> package \<Rightarrow> funcdecl \<Rightarrow> signature \<Rightarrow> funcdecl option" where
  "compileFunction h p fn color =
     (case (At (Params color) 0, At (Results color) 0, Body fn) of
        (Some t0, Some t1, Some body) \<Rightarrow>
          (let yieldTypeExpr = [typeExpr h t0, typeExpr h t1];
               body0 = desugar h body (TypesInfo p)
           in case Inspect (scanAssign p) (walkBlock body0)
                     (Some \<lparr>objectVars = Map.empty, varNames = [], varTypes = []\<rparr>) of
                None \<Rightarrow> None
              | Some sc \<Rightarrow>
                 (let body1 = map_gblock id assignTok body0;
                      body2 = map_gblock (replaceIdent (objectVars sc)) id body1;
                      names = saveAndRestoreNames fn (varNames sc);
                      types = saveAndRestoreTypes p fn (varTypes sc);
                      spans = trackSpans h (BlockStmt body2)
                  in case compileStatement (unnestBlocks h) spans (BlockStmt body2) of
                       BlockStmt (Block q compiledBody) \<Rightarrow>
                         Some \<lparr>Recv = None, Name' = Name' fn, Type = Type fn,
                               Body = Some (Block 0
                                 ([loadContext yieldTypeExpr, pushFrame] @
                                  declareVars h (varNames sc) (varTypes sc) @
                                  [restoreState h names types, saveState names] @
                                  compiledBody))\<rparr>
                     | _ \<Rightarrow> None))
      | _ \<Rightarrow> None)"

section \<open>\<^verbatim>\<open>compilePackage\<close>\<close>

record compiler =
  outputFilename :: string
  buildTags :: string

text \<open>
  A colored function of the call graph: how it prints, and its syntax, a function
  declaration or something else (of which only the \<^verbatim>\<open>%T\<close> name is kept).
\<close>

datatype fnSyntax = SyntaxFuncDecl funcdecl | SyntaxOther string

record ssaFunction =
  String' :: string
  Syntax' :: fnSyntax

record astFile =
  FileName :: ident
  Decls :: "decl list"

text \<open>
  The operating system and the formatter, as far as \<^verbatim>\<open>compilePackage\<close> calls them:
  \<^verbatim>\<open>filepath.Dir\<close>, \<^verbatim>\<open>filepath.Join\<close>, \<^verbatim>\<open>strconv.Quote\<close>, whether \<^verbatim>\<open>os.Create\<close>
  fails (with which message) and what \<^verbatim>\<open>format.Node\<close> prints.  The file system
  maps a path to the contents of the file there.
\<close>

record os =
  Dir :: "string \<Rightarrow> string"
  Join :: "string \<Rightarrow> string \<Rightarrow> string"
  Quote :: "string \<Rightarrow> string"
  Create :: "string \<Rightarrow> string option"
  formatNode :: "astFile \<Rightarrow> string + string"

type_synonym fs = "string \<rightharpoonup> string"

definition coroutinePackage :: string where
  "coroutinePackage = ''github.com/stealthrocket/coroutine''"

text \<open>Lines 179 to 186.\<close>

fun colorsByDecl ::
  "(ssaFunction \<times> signature) list \<Rightarrow> (funcdecl \<rightharpoonup> signature) \<Rightarrow> error + (funcdecl \<rightharpoonup> signature)"
where
  "colorsByDecl [] m = Inr m"
| "colorsByDecl ((fn, color) # rest) m =
     (case Syntax' fn of
        SyntaxFuncDecl decl \<Rightarrow> colorsByDecl rest (m(decl \<mapsto> color))
      | SyntaxOther t \<Rightarrow>
          Inl (Error (''unsupported yield function '' @ String' fn @ '' (Syntax is '' @ t @
                      '', not *ast.FuncDecl)'')))"

text \<open>
  Lines 187 to 285: the loop over the declarations of the files, in order.  It
  returns from \<^verbatim>\<open>compilePackage\<close> at the first colored function that validation
  rejects.
\<close>

fun compileDecls ::
  "helpers \<Rightarrow> package \<Rightarrow> (funcdecl \<rightharpoonup> signature) \<Rightarrow> decl list \<Rightarrow> decl list \<Rightarrow> error + decl list"
where
  "compileDecls h p m [] gen = Inr gen"
| "compileDecls h p m (FuncDecl decl # rest) gen =
     (case m decl of
        None \<Rightarrow> compileDecls h p m rest gen
      | Some color \<Rightarrow>
        (case validate p decl of
           Some err \<Rightarrow> Inl err
         | None \<Rightarrow>
           (case compileFunction h p decl color of
              None \<Rightarrow> Inl (Panic ''compileFunction'')
            | Some g \<Rightarrow> compileDecls h p m rest (gen @ [FuncDecl g]))))"
| "compileDecls h p m (anydecl # rest) gen = compileDecls h p m rest gen"

definition header :: "compiler \<Rightarrow> string" where
  "header c =
     ''// Code generated by coroc. DO NOT EDIT'' @ [CHR 0x0A, CHR 0x0A] @
     (if buildTags c \<noteq> [] then ''//go:build '' @ buildTags c @ [CHR 0x0A, CHR 0x0A] else [])"

definition compilePackage ::
  "compiler \<Rightarrow> os \<Rightarrow> helpers \<Rightarrow> package \<Rightarrow> (ssaFunction \<times> signature) list \<Rightarrow> fs
     \<Rightarrow> error option \<times> fs" where
  "compilePackage c os h p colors fs =
     (let imports = [GenDecl IMPORT [ImportSpec (BasicLit STRING (Quote os coroutinePackage))]]
      in case colorsByDecl colors Map.empty of
           Inl err \<Rightarrow> (Some err, fs)
         | Inr m \<Rightarrow>
           (case compileDecls h p m (concat (Syntax p)) imports of
              Inl err \<Rightarrow> (Some err, fs)
            | Inr decls \<Rightarrow>
              (case GoFiles p of
                 [] \<Rightarrow> (Some (Panic ''index out of range''), fs)
               | f # fls \<Rightarrow>
                 (let outputPath = Join os (Dir os f) (outputFilename c)
                  in case Create os outputPath of
                       Some e \<Rightarrow>
                         (Some (Error (''os.Create '' @ Quote os outputPath @ '': '' @ e)), fs)
                     | None \<Rightarrow>
                       (case formatNode os \<lparr>FileName = NewIdent (PackageName p), Decls = decls\<rparr> of
                          Inl e \<Rightarrow> (Some (Error e), fs(outputPath \<mapsto> header c))
                        | Inr text \<Rightarrow> (None, fs(outputPath \<mapsto> header c @ text)))))))"

section \<open>Notions used to state the properties of validation\<close>

text \<open>
  The constructs the specification lists as unconditionally rejected (section 4.2), and
  the name each has in the error message.
\<close>

fun unconditionallyRejected :: "stmt \<Rightarrow> bool" where
  "unconditionallyRejected (DeferStmt q c) = True"
| "unconditionallyRejected (GoStmt q c) = True"
| "unconditionallyRejected (LabeledStmt q l s) = True"
| "unconditionallyRejected (SelectStmt q body) = True"
| "unconditionallyRejected (CommClause q c body) = True"
| "unconditionallyRejected (TypeSwitchStmt q init a body) = True"
| "unconditionallyRejected (DeclStmt q k specs) = True"
| "unconditionallyRejected (AssignStmt q lhs t rhs) =
     (case lhs of
        [] \<Rightarrow> False
      | Id i # r \<Rightarrow> r \<noteq> [] \<or> length rhs \<noteq> 1
      | x # r \<Rightarrow> True)"
| "unconditionallyRejected (BranchStmt q t l) = (t = GOTO \<or> t = FALLTHROUGH)"
| "unconditionallyRejected s = False"

fun category :: "stmt \<Rightarrow> string" where
  "category (DeferStmt q c) = ''defer''"
| "category (GoStmt q c) = ''go''"
| "category (LabeledStmt q l s) = ''labels''"
| "category (SelectStmt q body) = ''select''"
| "category (CommClause q c body) = ''select case''"
| "category (TypeSwitchStmt q init a body) = ''type switch''"
| "category (DeclStmt q k specs) = ''inline decls''"
| "category (AssignStmt q lhs t rhs) =
     (case lhs of Id i # r \<Rightarrow> ''multiple assign'' | _ \<Rightarrow> ''assign to non-ident'')"
| "category (BranchStmt q t l) = (if t = GOTO then ''goto'' else ''fallthrough'')"
| "category s = []"

text \<open>
  A package for the examples: \<^verbatim>\<open>func work() { defer done(); for range m { } }\<close> with
  \<open>m\<close> a map, colored.
\<close>

definition os0 :: os where
  "os0 = \<lparr>Dir = (\<lambda>f. ''.''), Join = (\<lambda>d f. d @ ''/'' @ f),
           Quote = (\<lambda>s. [CHR 0x22] @ s @ [CHR 0x22]), Create = (\<lambda>f. None),
           formatNode = (\<lambda>f. Inr ''package main'')\<rparr>"

definition h0 :: helpers where
  "h0 = \<lparr>desugar = (\<lambda>b info. b), trackSpans = (\<lambda>s. Map.empty), unnestBlocks = id,
          typeExpr = (\<lambda>t. Id (NewIdent ''int''))\<rparr>"

definition c0 :: compiler where
  "c0 = \<lparr>outputFilename = ''coroc_generated.go'', buildTags = []\<rparr>"

definition deferDone :: stmt where
  "deferDone = DeferStmt 3 (CallExpr (Id (Ident 4 ''done'' None)) [])"

definition work :: funcdecl where
  "work = \<lparr>Recv = None, Name' = Ident 1 ''work'' None, Type = FuncType (Some []) None,
            Body = Some (Block 2
              [deferDone, RangeStmt 5 None None ILLEGAL (Id (Ident 6 ''m'' None)) (Block 7 [])])\<rparr>"

definition pkgWork :: package where
  "pkgWork = \<lparr>PackageName = ''main'', GoFiles = [''main.go''], Syntax = [[FuncDecl work]],
               TypesInfo = \<lparr>TypeOf = (\<lambda>e. Map (Basic ''string'') (Basic ''int'')),
                             ObjectOf = (\<lambda>i. None)\<rparr>\<rparr>"

definition yieldInt :: signature where
  "yieldInt = \<lparr>Params = [Basic ''int''], Results = [Interface]\<rparr>"

definition colorsWork :: "(ssaFunction \<times> signature) list" where
  "colorsWork = [(\<lparr>String' = ''main.work'', Syntax' = SyntaxFuncDecl work\<rparr>, yieldInt)]"

text \<open>
  \<^verbatim>\<open>func spin() { for { break } }\<close>, and the same with \<^verbatim>\<open>defer done()\<close> after the loop.
\<close>

definition universe0 :: "string \<Rightarrow> tobject option" where
  "universe0 n = (if n = ''len'' then Some (Builtin 1) else if n = ''int'' then Some (TypeName 2)
                  else None)"

definition infoNone :: typesInfo where
  "infoNone = \<lparr>TypeOf = (\<lambda>e. NoType), ObjectOf = (\<lambda>i. None)\<rparr>"

definition breakStmt :: stmt where
  "breakStmt = BranchStmt 24 BREAK None"

definition spin :: funcdecl where
  "spin = \<lparr>Recv = None, Name' = Ident 21 ''spin'' (Some 1), Type = FuncType (Some []) None,
            Body = Some (Block 22 [ForStmt 23 None None None (Block 25 [breakStmt])])\<rparr>"

definition spinDefer :: funcdecl where
  "spinDefer = \<lparr>Recv = None, Name' = Ident 21 ''spin'' (Some 1), Type = FuncType (Some []) None,
            Body = Some (Block 22 [ForStmt 23 None None None (Block 25 [breakStmt]),
                                   deferDone])\<rparr>"

text \<open>The calls \<^verbatim>\<open>countFunctionCalls\<close> counts.\<close>

fun countedCall :: "(string \<Rightarrow> tobject option) \<Rightarrow> typesInfo \<Rightarrow> node \<Rightarrow> bool" where
  "countedCall U info (NExpr (CallExpr f args)) = (\<not> skipCall U info f)"
| "countedCall U info n = False"

fun isFuncLit :: "expr \<Rightarrow> bool" where
  "isFuncLit (FuncLit t b) = True"
| "isFuncLit e = False"

text \<open>
  The count in the words of C8: every call that is neither a call of a built-in of
  the universe scope nor a type conversion (a call whose callee denotes a type).
\<close>

fun isTypeExpr :: "typesInfo \<Rightarrow> expr \<Rightarrow> bool" where
  "isTypeExpr info (Id i) = (case ObjectOf info i of Some (TypeName a) \<Rightarrow> True | _ \<Rightarrow> False)"
| "isTypeExpr info (SelectorExpr x sel) =
     (case ObjectOf info sel of Some (TypeName a) \<Rightarrow> True | _ \<Rightarrow> False)"
| "isTypeExpr info (ArrayType l elt) = True"
| "isTypeExpr info (MapType k v) = True"
| "isTypeExpr info (FuncTypeExpr t) = True"
| "isTypeExpr info (ParenExpr x) = isTypeExpr info x"
| "isTypeExpr info (StarExpr x) = isTypeExpr info x"
| "isTypeExpr info e = False"

fun isUniverseBuiltin :: "(string \<Rightarrow> tobject option) \<Rightarrow> typesInfo \<Rightarrow> expr \<Rightarrow> bool" where
  "isUniverseBuiltin U info (Id i) =
     (case ObjectOf info i of Some (Builtin a) \<Rightarrow> U (Name i) = Some (Builtin a) | _ \<Rightarrow> False)"
| "isUniverseBuiltin U info e = False"

fun claimedCall :: "(string \<Rightarrow> tobject option) \<Rightarrow> typesInfo \<Rightarrow> node \<Rightarrow> bool" where
  "claimedCall U info (NExpr (CallExpr f args)) =
     (\<not> isTypeExpr info f \<and> \<not> isUniverseBuiltin U info f)"
| "claimedCall U info n = False"

definition claimedCount :: "(string \<Rightarrow> tobject option) \<Rightarrow> typesInfo \<Rightarrow> expr \<Rightarrow> nat" where
  "claimedCount U info e = length (filter (claimedCall U info) (nodes (walkExpr e)))"

text \<open>
  \<^verbatim>\<open>func measure() { n := unsafe.Sizeof(a) + unsafe.Sizeof(b) }\<close> and
  \<^verbatim>\<open>func twice() { n := f(g(a)) }\<close>.
\<close>

definition infoUnsafe :: typesInfo where
  "infoUnsafe =
     \<lparr>TypeOf = (\<lambda>e. Basic ''uintptr''),
      ObjectOf = (\<lambda>i. if Name i = ''unsafe'' then Some (PkgName 100 ''unsafe'')
                       else if Name i = ''Sizeof'' then Some (Builtin 101)
                       else if Name i \<in> {''measure'', ''twice'', ''f'', ''g''}
                         then Some (Func (NamePos i))
                       else Some (Var (NamePos i)))\<rparr>"

definition sizes :: expr where
  "sizes =
     BinaryExpr
       (CallExpr (SelectorExpr (Id (Ident 34 ''unsafe'' None)) (Ident 35 ''Sizeof'' None))
          [Id (Ident 36 ''a'' (Some 2))])
       ADD
       (CallExpr (SelectorExpr (Id (Ident 37 ''unsafe'' None)) (Ident 38 ''Sizeof'' None))
          [Id (Ident 39 ''b'' (Some 3))])"

definition measure' :: funcdecl where
  "measure' = \<lparr>Recv = None, Name' = Ident 31 ''measure'' (Some 1),
     Type = FuncType (Some []) None,
     Body = Some (Block 32 [AssignStmt 33 [Id (Ident 33 ''n'' (Some 4))] DEFINE [sizes]])\<rparr>"

definition nested :: expr where
  "nested = CallExpr (Id (Ident 44 ''f'' None)) [CallExpr (Id (Ident 45 ''g'' None))
              [Id (Ident 46 ''a'' (Some 2))]]"

definition twice :: funcdecl where
  "twice = \<lparr>Recv = None, Name' = Ident 41 ''twice'' (Some 1),
     Type = FuncType (Some []) None,
     Body = Some (Block 42 [AssignStmt 43 [Id (Ident 43 ''n'' (Some 4))] DEFINE [nested]])\<rparr>"

section \<open>Notions used to state the properties of \<^verbatim>\<open>compileFunction\<close>\<close>

text \<open>
  The statements an \<^verbatim>\<open>if\<close> without init statement runs, given the value of its
  condition; the body of the function literal a \<^verbatim>\<open>defer\<close> statement calls; and the value
  of the call \<^verbatim>\<open>_c.Unwinding()\<close> when the context is unwinding or not.
\<close>

fun execIf :: "(expr \<Rightarrow> bool option) \<Rightarrow> stmt \<Rightarrow> stmt list option" where
  "execIf ev (IfStmt q None cond (Block b thn) els) =
     (case ev cond of
        None \<Rightarrow> None
      | Some True \<Rightarrow> Some thn
      | Some False \<Rightarrow>
        (case els of
           None \<Rightarrow> Some []
         | Some (BlockStmt (Block b' es)) \<Rightarrow> Some es
         | Some s \<Rightarrow> Some [s]))"
| "execIf ev s = None"

fun deferred :: "stmt \<Rightarrow> stmt list option" where
  "deferred (DeferStmt q (CallExpr (FuncLit t (Block b body)) [])) = Some body"
| "deferred s = None"

definition unwinding :: "bool \<Rightarrow> expr \<Rightarrow> bool option" where
  "unwinding u e =
     (if e = CallExpr (SelectorExpr (Id (NewIdent ''_c'')) (NewIdent ''Unwinding'')) []
      then Some u else None)"





text \<open>The scan of a function body, and the body after the two rewriting passes.\<close>

definition scanned :: "helpers \<Rightarrow> package \<Rightarrow> block \<Rightarrow> scanState option" where
  "scanned h p body =
     Inspect (scanAssign p) (walkBlock (desugar h body (TypesInfo p)))
       (Some \<lparr>objectVars = Map.empty, varNames = [], varTypes = []\<rparr>)"

definition rewritten :: "helpers \<Rightarrow> package \<Rightarrow> block \<Rightarrow> scanState \<Rightarrow> block" where
  "rewritten h p body sc =
     map_gblock (replaceIdent (objectVars sc)) id
       (map_gblock id assignTok (desugar h body (TypesInfo p)))"

text \<open>
  What the scan collects.  Its closure looks at the first target of every assignment
  statement, whatever the token of the assignment, \<^verbatim>\<open>:=\<close> or \<^verbatim>\<open>=\<close>; \<open>scanTarget\<close> is
  that identifier when it has a declaration object.  The scan keeps the first such
  identifier for every object, in the order \<^verbatim>\<open>ast.Inspect\<close> meets the assignments.
\<close>

fun scanTarget :: "node \<Rightarrow> ident option" where
  "scanTarget (NStmt (AssignStmt q (Id name # r) t rhs)) =
     (if Obj name = None then None else Some name)"
| "scanTarget n = None"

definition keepFirst :: "ident list \<Rightarrow> ident \<Rightarrow> ident list" where
  "keepFirst acc x = (if Obj x \<in> Obj ` set acc then acc else acc @ [x])"

definition firstAssigned :: "node list \<Rightarrow> ident list" where
  "firstAssigned ns = foldl keepFirst [] (List.map_filter scanTarget ns)"

definition slotName :: "nat \<Rightarrow> ident" where
  "slotName i = NewIdent (''_v'' @ Itoa (int i))"

definition scanInv :: "package \<Rightarrow> scanState \<Rightarrow> ident list \<Rightarrow> bool" where
  "scanInv p s acc =
     (varNames s = map slotName [0..<length acc] \<and>
      varTypes s = map (\<lambda>i. TypeOf (TypesInfo p) (Id i)) acc \<and>
      objectVars s = map_of (zip (map (\<lambda>i. the (Obj i)) acc) (varNames s)) \<and>
      (\<forall>x\<in>set acc. Obj x \<noteq> None) \<and> distinct (map Obj acc))"

text \<open>
  The function \<^verbatim>\<open>SquareGenerator\<close> of \<^verbatim>\<open>coroc/testdata/coroutine.go\<close>, with a span
  table for its loop, and what \<^verbatim>\<open>compileFunction\<close> makes of it:
  \<^verbatim>\<open>for i := 1; i <= n; i++ { coroutine.Yield[int, any](i * i) }\<close>.
\<close>

definition typeExprEx :: "gotype \<Rightarrow> expr" where
  "typeExprEx t = (case t of Basic n \<Rightarrow> Id (NewIdent n) | Named n \<Rightarrow> Id (NewIdent n)
                   | _ \<Rightarrow> Id (NewIdent ''any''))"

definition hEx :: helpers where
  "hEx = \<lparr>desugar = (\<lambda>b info. b),
           trackSpans = (\<lambda>s. [65 \<mapsto> \<lparr>start = 1, end' = 4\<rparr>, 70 \<mapsto> \<lparr>start = 2, end' = 4\<rparr>]),
           unnestBlocks = id, typeExpr = typeExprEx\<rparr>"

definition yieldCall :: "string \<Rightarrow> stmt" where
  "yieldCall i =
     ExprStmt 71
       (CallExpr
          (IndexListExpr
             (SelectorExpr (Id (Ident 71 ''coroutine'' None)) (Ident 72 ''Yield'' None))
             [Id (Ident 73 ''int'' None), Id (Ident 74 ''any'' None)])
          [BinaryExpr (Id (Ident 75 i (Some 12))) MUL (Id (Ident 76 i (Some 12)))])"

definition squareBody :: block where
  "squareBody =
     Block 64
       [ForStmt 65
          (Some (AssignStmt 66 [Id (Ident 66 ''i'' (Some 12))] DEFINE [BasicLit INT' ''1'']))
          (Some (BinaryExpr (Id (Ident 67 ''i'' (Some 12))) LEQ (Id (Ident 68 ''n'' (Some 11)))))
          (Some (IncDecStmt 69 (Id (Ident 69 ''i'' (Some 12))) INC))
          (Block 70 [yieldCall ''i''])]"

definition squareType :: functype where
  "squareType =
     FuncType (Some [Field [Ident 62 ''n'' (Some 11)] (Some (Id (Ident 63 ''int'' None)))]) None"

definition squareGenerator :: funcdecl where
  "squareGenerator =
     \<lparr>Recv = None, Name' = Ident 61 ''SquareGenerator'' (Some 10), Type = squareType,
      Body = Some squareBody\<rparr>"

definition squareMethod :: funcdecl where
  "squareMethod =
     \<lparr>Recv = Some [Field [Ident 59 ''s'' (Some 9)] (Some (StarExpr (Id (Ident 60 ''Series'' None))))],
      Name' = Ident 61 ''SquareGenerator'' (Some 10), Type = squareType,
      Body = Some squareBody\<rparr>"

definition pkgEx :: package where
  "pkgEx = \<lparr>PackageName = ''testdata'', GoFiles = [''coroutine.go''],
             Syntax = [[FuncDecl squareGenerator]],
             TypesInfo = \<lparr>TypeOf = (\<lambda>e. Basic ''int''), ObjectOf = (\<lambda>i. None)\<rparr>\<rparr>"

definition getSlot :: "string \<Rightarrow> expr" where
  "getSlot i =
     TypeAssertExpr
       (CallExpr (SelectorExpr (Id (NewIdent ''_f'')) (NewIdent ''Get'')) [BasicLit INT' i])
       (Some (Id (NewIdent ''int'')))"

definition setSlot :: "string \<Rightarrow> ident \<Rightarrow> stmt" where
  "setSlot i name =
     ExprStmt 0
       (CallExpr (SelectorExpr (Id (NewIdent ''_f'')) (NewIdent ''Set''))
          [BasicLit INT' i, Id name])"

definition popFrame :: stmt where
  "popFrame = ExprStmt 0 (CallExpr (SelectorExpr (Id (NewIdent ''_c'')) (NewIdent ''Pop'')) [])"

definition squareDurable :: funcdecl where
  "squareDurable =
     \<lparr>Recv = None, Name' = Ident 61 ''SquareGenerator'' (Some 10), Type = squareType,
      Body = Some (Block 0
        [AssignStmt 0 [Id (NewIdent ''_c'')] DEFINE
           [CallExpr
              (IndexListExpr
                 (SelectorExpr (Id (NewIdent ''coroutine'')) (NewIdent ''LoadContext''))
                 [Id (NewIdent ''int''), Id (NewIdent ''any'')])
              []],
         AssignStmt 0 [Id (NewIdent ''_f'')] DEFINE
           [CallExpr (SelectorExpr (Id (NewIdent ''_c'')) (NewIdent ''Push'')) []],
         DeclStmt 0 VAR [ValueSpec [NewIdent ''_v0''] (Some (Id (NewIdent ''int''))) []],
         IfStmt 0 None (BinaryExpr frameIP GTR (BasicLit INT' ''0''))
           (Block 0
              [AssignStmt 0 [Id (Ident 62 ''n'' (Some 11))] ASSIGN [getSlot ''0''],
               AssignStmt 0 [Id (NewIdent ''_v0'')] ASSIGN [getSlot ''1'']])
           None,
         DeferStmt 0
           (CallExpr
              (FuncLit (FuncType None None)
                 (Block 0
                    [IfStmt 0 None
                       (CallExpr (SelectorExpr (Id (NewIdent ''_c'')) (NewIdent ''Unwinding'')) [])
                       (Block 0
                          [setSlot ''0'' (Ident 62 ''n'' (Some 11)),
                           setSlot ''1'' (NewIdent ''_v0'')])
                       (Some (BlockStmt (Block 0 [popFrame])))]))
              []),
         ForStmt 65
           (Some (AssignStmt 66 [Id (Ident 66 ''_v0'' (Some 12))] ASSIGN [BasicLit INT' ''1'']))
           (Some (BinaryExpr (Id (Ident 67 ''_v0'' (Some 12))) LEQ (Id (Ident 68 ''n'' (Some 11)))))
           (Some (IncDecStmt 69 (Id (Ident 69 ''_v0'' (Some 12))) INC))
           (Block 70
              [yieldCall ''_v0'',
               AssignStmt 0 [frameIP] ASSIGN [BasicLit INT' ''1'']])])\<rparr>"

text \<open>
  A function that assigns one of its parameters,
  \<^verbatim>\<open>func bump(_ string, n int) { n = 1 }\<close>, and what \<^verbatim>\<open>compileFunction\<close> makes of it.
\<close>

definition bump :: funcdecl where
  "bump =
     \<lparr>Recv = None, Name' = Ident 41 ''bump'' (Some 20),
      Type = FuncType
        (Some [Field [Ident 42 ''_'' (Some 22)] (Some (Id (Ident 43 ''string'' None))),
               Field [Ident 44 ''n'' (Some 21)] (Some (Id (Ident 45 ''int'' None)))])
        None,
      Body = Some (Block 46
        [AssignStmt 47 [Id (Ident 47 ''n'' (Some 21))] ASSIGN [BasicLit INT' ''1'']])\<rparr>"

definition bumpDurable :: funcdecl where
  "bumpDurable =
     \<lparr>Recv = None, Name' = Name' bump, Type = Type bump,
      Body = Some (Block 0
        [AssignStmt 0 [Id (NewIdent ''_c'')] DEFINE
           [CallExpr
              (IndexListExpr
                 (SelectorExpr (Id (NewIdent ''coroutine'')) (NewIdent ''LoadContext''))
                 [Id (NewIdent ''int''), Id (NewIdent ''any'')])
              []],
         AssignStmt 0 [Id (NewIdent ''_f'')] DEFINE
           [CallExpr (SelectorExpr (Id (NewIdent ''_c'')) (NewIdent ''Push'')) []],
         DeclStmt 0 VAR [ValueSpec [NewIdent ''_v0''] (Some (Id (NewIdent ''int''))) []],
         IfStmt 0 None (BinaryExpr frameIP GTR (BasicLit INT' ''0''))
           (Block 0
              [AssignStmt 0 [Id (Ident 44 ''n'' (Some 21))] ASSIGN [getSlot ''0''],
               AssignStmt 0 [Id (NewIdent ''_v0'')] ASSIGN [getSlot ''1'']])
           None,
         DeferStmt 0
           (CallExpr
              (FuncLit (FuncType None None)
                 (Block 0
                    [IfStmt 0 None
                       (CallExpr (SelectorExpr (Id (NewIdent ''_c'')) (NewIdent ''Unwinding'')) [])
                       (Block 0
                          [setSlot ''0'' (Ident 44 ''n'' (Some 21)),
                           setSlot ''1'' (NewIdent ''_v0'')])
                       (Some (BlockStmt (Block 0 [popFrame])))]))
              []),
         AssignStmt 47 [Id (Ident 47 ''_v0'' (Some 21))] ASSIGN [BasicLit INT' ''1'']])\<rparr>"

text \<open>
  A function with a loop in the else branch of an if statement,
  \<^verbatim>\<open>func elseLoop() { if ready { return } else { for { coroutine.Yield[int, any](1); step() } } }\<close>,
  with the ranges of section 4.4 for its statements.
\<close>

definition elseIf :: stmt where
  "elseIf =
     IfStmt 81 None (Id (Ident 82 ''ready'' None)) (Block 83 [ReturnStmt 84 []])
       (Some (BlockStmt (Block 85
          [ForStmt 86 None None None
             (Block 87
                [ExprStmt 88
                   (CallExpr
                      (IndexListExpr
                         (SelectorExpr (Id (Ident 88 ''coroutine'' None)) (Ident 90 ''Yield'' None))
                         [Id (Ident 91 ''int'' None), Id (Ident 92 ''any'' None)])
                      [BasicLit INT' ''1'']),
                 callStmt 89 ''step''])])))"

definition elseLoop :: funcdecl where
  "elseLoop =
     \<lparr>Recv = None, Name' = Ident 79 ''elseLoop'' (Some 30), Type = FuncType (Some []) None,
      Body = Some (Block 80 [elseIf])\<rparr>"

definition spansElse :: spans where
  "spansElse =
     [80 \<mapsto> \<lparr>start = 0, end' = 3\<rparr>, 81 \<mapsto> \<lparr>start = 0, end' = 3\<rparr>,
      83 \<mapsto> \<lparr>start = 0, end' = 1\<rparr>, 84 \<mapsto> \<lparr>start = 0, end' = 1\<rparr>,
      85 \<mapsto> \<lparr>start = 1, end' = 3\<rparr>, 86 \<mapsto> \<lparr>start = 1, end' = 3\<rparr>,
      87 \<mapsto> \<lparr>start = 1, end' = 3\<rparr>, 88 \<mapsto> \<lparr>start = 1, end' = 2\<rparr>,
      89 \<mapsto> \<lparr>start = 2, end' = 3\<rparr>]"

definition hElse :: helpers where
  "hElse = \<lparr>desugar = (\<lambda>b info. b), trackSpans = (\<lambda>s. spansElse), unnestBlocks = id,
             typeExpr = typeExprEx\<rparr>"

section \<open>Integer literals\<close>

lemma digitval_digit: "d < 10 \<Longrightarrow> digitval (digit d) = d"
proof -
  assume "d < 10"
  then have "d \<in> {0, 1, 2, 3, 4, 5, 6, 7, 8, 9}" by auto
  then show ?thesis by (auto simp: digitval_def digit_def)
qed

lemma digit_not_minus: "d < 10 \<Longrightarrow> digit d \<noteq> CHR ''-''"
proof -
  assume "d < 10"
  then have "d \<in> {0, 1, 2, 3, 4, 5, 6, 7, 8, 9}" by auto
  then show ?thesis by (auto simp: digit_def)
qed

lemma natval_snoc: "natval (s @ [c]) = 10 * natval s + digitval c"
  by (simp add: natval_def)

lemma natval_digits: "natval (digits n) = n"
proof (induction n rule: digits.induct)
  case (1 n)
  show ?case
  proof (cases "n < 10")
    case True
    then show ?thesis
      by (subst digits.simps) (simp add: natval_def digitval_digit)
  next
    case False
    with 1 have "natval (digits (n div 10)) = n div 10" by simp
    with False show ?thesis
      by (subst digits.simps) (simp add: natval_snoc digitval_digit)
  qed
qed

lemma digits_nonempty: "digits n \<noteq> []"
  by (subst digits.simps) simp

lemma hd_digits_not_minus: "hd (digits n) \<noteq> CHR ''-''"
proof (induction n rule: digits.induct)
  case (1 n)
  show ?case
  proof (cases "n < 10")
    case True
    then show ?thesis by (subst digits.simps) (simp add: digit_not_minus)
  next
    case False
    with 1 have "hd (digits (n div 10)) \<noteq> CHR ''-''" by simp
    with False show ?thesis
      by (subst digits.simps) (simp add: digits_nonempty)
  qed
qed

lemma litval_Itoa: "litval (Itoa i) = i"
proof (cases "i < 0")
  case True
  then show ?thesis by (simp add: litval_def Itoa_def natval_digits)
next
  case False
  obtain c cs where d: "digits (nat i) = c # cs"
    using digits_nonempty [of "nat i"] by (cases "digits (nat i)") auto
  with hd_digits_not_minus [of "nat i"] have "c \<noteq> CHR ''-''" by simp
  moreover have "natval (c # cs) = nat i" using natval_digits [of "nat i"] d by simp
  ultimately show ?thesis using False d by (simp add: litval_def Itoa_def)
qed

section \<open>Properties of the dispatch compiler\<close>

lemma evalGuard_guardIP: "evalGuard ip (guardIP v) = Some (ip < v)"
  by (simp add: guardIP_def litval_Itoa)

lemma length_dispatchCases: "length (dispatchCases un sp n i lst) = length lst"
  by (induction lst arbitrary: i) simp_all

lemma nth_dispatchCases:
  "j < length lst \<Longrightarrow>
   dispatchCases un sp n i lst ! j =
     CaseClause 0 [guardIP (end' (lookup sp (lst ! j)))]
       (un (compileStatement un sp (lst ! j)) #
        (if int (i + j) < int n - 1
         then [assignIP (end' (lookup sp (lst ! j))), BranchStmt 0 FALLTHROUGH None]
         else []))"
proof (induction lst arbitrary: i j)
  case Nil
  then show ?case by simp
next
  case (Cons a lst)
  show ?case
  proof (cases j)
    case 0
    then show ?thesis by simp
  next
    case (Suc m)
    with Cons.prems have "m < length lst" by simp
    from Cons.IH [OF this, of "Suc i"] Suc show ?thesis by simp
  qed
qed

lemma dispatchCases_map:
  "dispatchCases un sp (length lst) 0 lst =
     map (\<lambda>j. CaseClause 0 [guardIP (end' (lookup sp (lst ! j)))]
            (un (compileStatement un sp (lst ! j)) #
             (if Suc j < length lst
              then [assignIP (end' (lookup sp (lst ! j))), BranchStmt 0 FALLTHROUGH None]
              else [])))
       [0..<length lst]"
proof (rule nth_equalityI)
  show "length (dispatchCases un sp (length lst) 0 lst) = length (map (\<lambda>j. CaseClause 0 [guardIP (end' (lookup sp (lst ! j)))]
            (un (compileStatement un sp (lst ! j)) #
             (if Suc j < length lst
              then [assignIP (end' (lookup sp (lst ! j))), BranchStmt 0 FALLTHROUGH None]
              else []))) [0..<length lst])"
    by (simp add: length_dispatchCases)
next
  fix j assume "j < length (dispatchCases un sp (length lst) 0 lst)"
  then have j: "j < length lst" by (simp add: length_dispatchCases)
  have "(int j < int (length lst) - 1) = (Suc j < length lst)" by auto
  with j show "dispatchCases un sp (length lst) 0 lst ! j = map (\<lambda>j. CaseClause 0 [guardIP (end' (lookup sp (lst ! j)))]
            (un (compileStatement un sp (lst ! j)) #
             (if Suc j < length lst
              then [assignIP (end' (lookup sp (lst ! j))), BranchStmt 0 FALLTHROUGH None]
              else []))) [0..<length lst] ! j"
    by (simp add: nth_dispatchCases)
qed

lemma drop_dispatchCases:
  "drop k (dispatchCases un sp n i lst) = dispatchCases un sp n (i + k) (drop k lst)"
proof (induction lst arbitrary: i k)
  case Nil
  then show ?case by simp
next
  case (Cons a lst)
  show ?case
  proof (cases k)
    case 0
    then show ?thesis by simp
  next
    case (Suc m)
    with Cons.IH [of m "Suc i"] show ?thesis by simp
  qed
qed

lemma selectClause_dispatchCases:
  "k \<le> length lst \<Longrightarrow>
   (\<forall>j<k. end' (lookup sp (lst ! j)) \<le> ip) \<Longrightarrow>
   (k < length lst \<longrightarrow> ip < end' (lookup sp (lst ! k))) \<Longrightarrow>
   selectClause ip (dispatchCases un sp n i lst) = Some (drop k (dispatchCases un sp n i lst))"
proof (induction lst arbitrary: i k)
  case Nil
  then show ?case by simp
next
  case (Cons a lst)
  show ?case
  proof (cases k)
    case 0
    with Cons.prems show ?thesis by (simp add: evalGuard_guardIP)
  next
    case (Suc m)
    with Cons.prems have a: "\<not> ip < end' (lookup sp a)" by force
    from Suc Cons.prems have m: "m \<le> length lst" by simp
    from Suc Cons.prems have lo: "\<forall>j<m. end' (lookup sp (lst ! j)) \<le> ip" by force
    from Suc Cons.prems have hi: "m < length lst \<longrightarrow> ip < end' (lookup sp (lst ! m))" by simp
    from Cons.IH [OF m lo hi, of "Suc i"] a Suc show ?thesis
      by (simp add: evalGuard_guardIP)
  qed
qed

lemma runClauses_dispatchCases:
  "i + length lst = n \<Longrightarrow>
   runClauses (dispatchCases un sp n i lst) = concat (map clauseBody (dispatchCases un sp n i lst))"
proof (induction lst arbitrary: i)
  case Nil
  then show ?case by simp
next
  case (Cons a lst)
  from Cons.prems have "Suc i + length lst = n" by simp
  from Cons.IH [OF this] have ih: "runClauses (dispatchCases un sp n (Suc i) lst) =
      concat (map clauseBody (dispatchCases un sp n (Suc i) lst))" .
  show ?case
  proof (cases lst)
    case Nil
    with Cons.prems show ?thesis by simp
  next
    case (Cons b r)
    with Cons.prems have "int i < int n - 1" by simp
    with ih show ?thesis by simp
  qed
qed

lemma dispatch_run:
  assumes k: "k \<le> length lst"
    and lo: "\<forall>j<k. end' (lookup sp (lst ! j)) \<le> ip"
    and hi: "k < length lst \<longrightarrow> ip < end' (lookup sp (lst ! k))"
  shows "execSwitch ip (compileDispatch un sp lst) =
     Some (concat (map (\<lambda>j. un (compileStatement un sp (lst ! j)) #
              (if Suc j < length lst
               then [assignIP (end' (lookup sp (lst ! j))), BranchStmt 0 FALLTHROUGH None]
               else []))
            [k..<length lst]))"
proof -
  let ?n = "length lst"
  let ?F = "\<lambda>j. CaseClause 0 [guardIP (end' (lookup sp (lst ! j)))]
            (un (compileStatement un sp (lst ! j)) #
             (if Suc j < length lst
              then [assignIP (end' (lookup sp (lst ! j))), BranchStmt 0 FALLTHROUGH None]
              else []))"
  have sel: "selectClause ip (dispatchCases un sp ?n 0 lst) = Some (drop k (dispatchCases un sp ?n 0 lst))"
    by (rule selectClause_dispatchCases [OF k lo hi])
  have d: "drop k (dispatchCases un sp ?n 0 lst) = dispatchCases un sp ?n k (drop k lst)"
    using drop_dispatchCases [of k un sp ?n 0 lst] by simp
  from k have "k + length (drop k lst) = ?n" by simp
  from runClauses_dispatchCases [OF this]
  have run: "runClauses (drop k (dispatchCases un sp ?n 0 lst)) =
      concat (map clauseBody (drop k (dispatchCases un sp ?n 0 lst)))"
    by (simp only: d)
  have "drop k (dispatchCases un sp ?n 0 lst) = map ?F [k..<?n]"
    by (simp only: dispatchCases_map drop_map drop_upt) simp
  then have "map clauseBody (drop k (dispatchCases un sp ?n 0 lst)) =
      map (\<lambda>j. un (compileStatement un sp (lst ! j)) #
              (if Suc j < length lst
               then [assignIP (end' (lookup sp (lst ! j))), BranchStmt 0 FALLTHROUGH None]
               else [])) [k..<?n]"
    by simp
  with sel run show ?thesis by simp
qed

lemma ordered_spans_Cons:
  "ordered_spans (a # xs) =
     (start a \<le> end' a \<and> (xs \<noteq> [] \<longrightarrow> end' a \<le> start (hd xs)) \<and> ordered_spans xs)"
  by (cases xs) auto

lemma ordered_spans_sorted:
  "ordered_spans xs \<Longrightarrow>
   (\<forall>x\<in>set xs. start x \<le> end' x) \<and> sorted_wrt (\<lambda>a b. end' a \<le> start b) xs"
proof (induction xs)
  case Nil
  then show ?case by simp
next
  case (Cons a xs)
  then have a: "start a \<le> end' a" and hd: "xs \<noteq> [] \<longrightarrow> end' a \<le> start (hd xs)"
    and ih: "\<forall>x\<in>set xs. start x \<le> end' x" "sorted_wrt (\<lambda>a b. end' a \<le> start b) xs"
    by (simp_all add: ordered_spans_Cons)
  have "\<forall>y\<in>set xs. end' a \<le> start y"
  proof
    fix y assume y: "y \<in> set xs"
    then obtain b r where xs: "xs = b # r" by (cases xs) auto
    with hd have ab: "end' a \<le> start b" by simp
    show "end' a \<le> start y"
    proof (cases "y = b")
      case True
      with ab show ?thesis by simp
    next
      case False
      with y xs have "y \<in> set r" by simp
      with ih(2) xs have "end' b \<le> start y" by simp
      moreover from ih(1) xs have "start b \<le> end' b" by simp
      ultimately show ?thesis using ab by simp
    qed
  qed
  with a ih show ?case by simp
qed

lemma ordered_spans_nth:
  assumes "ordered_spans (map (lookup sp) lst)" and "i < j" and "j < length lst"
  shows "end' (lookup sp (lst ! i)) \<le> start (lookup sp (lst ! j))"
proof -
  from assms(1) have "sorted_wrt (\<lambda>a b. end' a \<le> start b) (map (lookup sp) lst)"
    by (simp add: ordered_spans_sorted)
  from sorted_wrt_nth_less [OF this, of i j] assms(2,3) show ?thesis by simp
qed

lemma ordered_spans_wf:
  assumes "ordered_spans (map (lookup sp) lst)" and "j < length lst"
  shows "start (lookup sp (lst ! j)) \<le> end' (lookup sp (lst ! j))"
proof -
  from assms(1) have "\<forall>x\<in>set (map (lookup sp) lst). start x \<le> end' x"
    by (simp add: ordered_spans_sorted)
  with assms(2) show ?thesis by simp
qed

lemma resumePoint_le: "resumePoint sp ip lst \<le> length lst"
  by (simp add: resumePoint_def length_takeWhile_le)

lemma resumePoint_before:
  "j < resumePoint sp ip lst \<Longrightarrow> end' (lookup sp (lst ! j)) \<le> ip"
proof -
  let ?P = "\<lambda>s. end' (lookup sp s) \<le> ip"
  assume "j < resumePoint sp ip lst"
  then have j: "j < length (takeWhile ?P lst)" by (simp add: resumePoint_def)
  then have "takeWhile ?P lst ! j \<in> set (takeWhile ?P lst)" by (rule nth_mem)
  then have "?P (takeWhile ?P lst ! j)" by (rule set_takeWhileD [THEN conjunct2])
  with j show ?thesis by (simp add: takeWhile_nth)
qed

lemma resumePoint_at:
  "resumePoint sp ip lst < length lst \<Longrightarrow> ip < end' (lookup sp (lst ! resumePoint sp ip lst))"
  using nth_length_takeWhile [of "\<lambda>s. end' (lookup sp s) \<le> ip" lst]
  by (simp add: resumePoint_def)

lemma resumePoint_ge:
  assumes "k \<le> length lst" and "\<forall>j<k. end' (lookup sp (lst ! j)) \<le> ip"
  shows "k \<le> resumePoint sp ip lst"
proof (rule ccontr)
  assume "\<not> k \<le> resumePoint sp ip lst"
  then have m: "resumePoint sp ip lst < k" by simp
  with assms(1) have "resumePoint sp ip lst < length lst" by simp
  then have "ip < end' (lookup sp (lst ! resumePoint sp ip lst))" by (rule resumePoint_at)
  with assms(2) m show False by force
qed

text \<open>
  Whatever the span table, the switch enters at the resume point and runs all clauses
  from there to the last.
\<close>

lemma dispatch_resume:
  "execSwitch ip (compileDispatch un sp lst) =
     Some (concat (map (\<lambda>j. un (compileStatement un sp (lst ! j)) #
              (if Suc j < length lst
               then [assignIP (end' (lookup sp (lst ! j))), BranchStmt 0 FALLTHROUGH None]
               else []))
            [resumePoint sp ip lst..<length lst]))"
proof (rule dispatch_run)
  show "resumePoint sp ip lst \<le> length lst" by (rule resumePoint_le)
next
  show "\<forall>j<resumePoint sp ip lst. end' (lookup sp (lst ! j)) \<le> ip"
    by (simp add: resumePoint_before)
next
  show "resumePoint sp ip lst < length lst \<longrightarrow>
      ip < end' (lookup sp (lst ! resumePoint sp ip lst))"
    by (simp add: resumePoint_at)
qed

text \<open>
  C1, as amended.  Let a list of at least two statements be compiled into a dispatch
  block, the spans of the list ordered as the span tracker promises, and let the
  switch be entered with the stored instruction pointer at the span end of statement
  \<open>k\<close> (counting from 1).  The switch runs none of the statements 1 to \<open>k\<close>.  It
  runs, in source order and once each, the compiled statements from statement \<open>m+1\<close>
  to the last, each but the last followed by its instruction-pointer update and the
  fallthrough, where \<open>m \<ge> k\<close> and \<open>m+1\<close> is the first statement whose span end lies
  beyond the stored instruction pointer.  The statements between \<open>k\<close> and \<open>m+1\<close> are
  not run; each of them has the empty range at the stored instruction pointer.  When
  every statement after \<open>k\<close> has a range that is not empty, \<open>m = k\<close>: the switch runs
  the statements \<open>k+1\<close> to \<open>n\<close>.
\<close>

theorem dispatch_skip:
  assumes "2 \<le> length lst"
    and "ordered_spans (map (lookup sp) lst)"
    and "1 \<le> k" and "k \<le> length lst"
  shows "let ip = end' (lookup sp (lst ! (k - 1))); m = resumePoint sp ip lst in
     execSwitch ip (compileDispatch un sp lst) =
       Some (concat (map (\<lambda>j. un (compileStatement un sp (lst ! j)) #
                (if Suc j < length lst
                 then [assignIP (end' (lookup sp (lst ! j))), BranchStmt 0 FALLTHROUGH None]
                 else []))
              [m..<length lst]))
     \<and> k \<le> m \<and> m \<le> length lst
     \<and> (\<forall>j. k \<le> j \<and> j < m \<longrightarrow>
           start (lookup sp (lst ! j)) = ip \<and> end' (lookup sp (lst ! j)) = ip)
     \<and> (m < length lst \<longrightarrow> ip < end' (lookup sp (lst ! m)))
     \<and> ((\<forall>j. k \<le> j \<and> j < length lst \<longrightarrow>
            start (lookup sp (lst ! j)) < end' (lookup sp (lst ! j))) \<longrightarrow> m = k)"
proof -
  define ip where "ip = end' (lookup sp (lst ! (k - 1)))"
  define m where "m = resumePoint sp ip lst"
  have run: "execSwitch ip (compileDispatch un sp lst) =
       Some (concat (map (\<lambda>j. un (compileStatement un sp (lst ! j)) #
                (if Suc j < length lst
                 then [assignIP (end' (lookup sp (lst ! j))), BranchStmt 0 FALLTHROUGH None]
                 else []))
              [m..<length lst]))"
    unfolding m_def by (rule dispatch_resume)
  have before: "\<forall>j<k. end' (lookup sp (lst ! j)) \<le> ip"
  proof (intro allI impI)
    fix j assume j: "j < k"
    show "end' (lookup sp (lst ! j)) \<le> ip"
    proof (cases "j = k - 1")
      case True
      then show ?thesis by (simp add: ip_def)
    next
      case False
      with j have lt: "j < k - 1" by simp
      from assms(3,4) have k1: "k - 1 < length lst" by simp
      from ordered_spans_nth [OF assms(2) lt k1] ordered_spans_wf [OF assms(2) k1]
      show ?thesis by (simp add: ip_def)
    qed
  qed
  have km: "k \<le> m" unfolding m_def by (rule resumePoint_ge [OF assms(4) before])
  have mn: "m \<le> length lst" unfolding m_def by (rule resumePoint_le)
  have skipped: "\<forall>j. k \<le> j \<and> j < m \<longrightarrow>
      start (lookup sp (lst ! j)) = ip \<and> end' (lookup sp (lst ! j)) = ip"
  proof (intro allI impI)
    fix j assume j: "k \<le> j \<and> j < m"
    with mn have jn: "j < length lst" by simp
    from j have hi: "end' (lookup sp (lst ! j)) \<le> ip"
      unfolding m_def by (simp add: resumePoint_before)
    from j assms(3) have "k - 1 < j" by arith
    from ordered_spans_nth [OF assms(2) this jn]
    have lo: "ip \<le> start (lookup sp (lst ! j))" by (simp add: ip_def)
    from ordered_spans_wf [OF assms(2) jn] lo hi
    show "start (lookup sp (lst ! j)) = ip \<and> end' (lookup sp (lst ! j)) = ip" by simp
  qed
  have at: "m < length lst \<longrightarrow> ip < end' (lookup sp (lst ! m))"
    unfolding m_def by (simp add: resumePoint_at)
  have full: "(\<forall>j. k \<le> j \<and> j < length lst \<longrightarrow>
      start (lookup sp (lst ! j)) < end' (lookup sp (lst ! j))) \<longrightarrow> m = k"
  proof
    assume ne: "\<forall>j. k \<le> j \<and> j < length lst \<longrightarrow>
        start (lookup sp (lst ! j)) < end' (lookup sp (lst ! j))"
    show "m = k"
    proof (rule ccontr)
      assume "m \<noteq> k"
      with km have "k \<le> k \<and> k < m" by simp
      with skipped have "start (lookup sp (lst ! k)) = end' (lookup sp (lst ! k))" by metis
      moreover from \<open>k \<le> k \<and> k < m\<close> mn ne
      have "start (lookup sp (lst ! k)) < end' (lookup sp (lst ! k))" by simp
      ultimately show False by simp
    qed
  qed
  from run km mn skipped at full show ?thesis
    unfolding Let_def ip_def [symmetric] m_def [symmetric] by blast
qed

theorem dispatch_skip_witness:
  "execSwitch 2 (compileDispatch id spans3 [EmptyStmt 1, EmptyStmt 2, EmptyStmt 3]) =
     Some [EmptyStmt 2, assignIP 3, BranchStmt 0 FALLTHROUGH None, EmptyStmt 3]
   \<and> resumePoint spans3 2 [EmptyStmt 1, EmptyStmt 2, EmptyStmt 3] = 1
   \<and> execSwitch 1 (compileDispatch id spansGap listGap) = Some [callStmt 3 ''b'']
   \<and> resumePoint spansGap 1 listGap = 2"
  using dispatch_skip [of "[EmptyStmt 1, EmptyStmt 2, EmptyStmt 3]" spans3 1 id]
    dispatch_skip [of listGap spansGap 1 id]
  by (simp add: spans3_def spansGap_def listGap_def callStmt_def lookup_def upt_rec
      resumePoint_def Let_def)

text \<open>
  C1 as stated fails: entered with the stored instruction pointer at the span end of
  the first of the three statements, the switch runs the third statement only.  The
  second, a block without statements, has the empty range \<open>[1, 1)\<close>; its guard
  \<^verbatim>\<open>_f.IP < 1\<close> is false, and its clause is not run.
\<close>

theorem dispatch_skip_counterexample:
  "ordered_spans (map (lookup spansGap) listGap)
   \<and> end' (lookup spansGap (listGap ! 0)) = 1
   \<and> execSwitch 1 (compileDispatch id spansGap listGap) = Some [callStmt 3 ''b'']
   \<and> execSwitch 1 (compileDispatch id spansGap listGap) \<noteq>
       Some [BlockStmt (Block 2 []), assignIP 1, BranchStmt 0 FALLTHROUGH None,
             callStmt 3 ''b'']"
  by (simp add: spansGap_def listGap_def callStmt_def lookup_def guardIP_def frameIP_def
      Itoa_def digits.simps digit_def litval_def natval_def digitval_def)

text \<open>
  C2.  A block or a case clause with no or one statement keeps its node, the one
  statement compiled in place; with two or more statements its body becomes one
  switch.  The switch has one clause per statement, in order: its guard is
  \<^verbatim>\<open>_f.IP < end\<close> for the span end of the statement, its body the compiled statement,
  followed for all but the last statement by \<^verbatim>\<open>_f.IP = end\<close> and a fallthrough.
  The clauses of a switch statement are compiled by the same rule.
\<close>

theorem statement_list_rewriting:
  "compileStatement un sp (BlockStmt (Block p lst)) =
     BlockStmt (if length lst \<le> 1 then Block p (map (\<lambda>x. un (compileStatement un sp x)) lst)
                else Block 0 [compileDispatch un sp lst])
   \<and> compileStatement un sp (CaseClause p l lst) =
     CaseClause p l (if length lst \<le> 1 then map (\<lambda>x. un (compileStatement un sp x)) lst
                     else [compileDispatch un sp lst])
   \<and> compileDispatch un sp lst =
     SwitchStmt 0 None None (Block 0
       (map (\<lambda>j. CaseClause 0 [guardIP (end' (lookup sp (lst ! j)))]
               (un (compileStatement un sp (lst ! j)) #
                (if Suc j < length lst
                 then [assignIP (end' (lookup sp (lst ! j))), BranchStmt 0 FALLTHROUGH None]
                 else [])))
          [0..<length lst]))
   \<and> compileStatement un sp (SwitchStmt p init tag (Block bp lst)) =
     SwitchStmt p init tag (Block bp (map (compileStatement un sp) lst))"
proof (intro conjI)
  show "compileStatement un sp (BlockStmt (Block p lst)) =
     BlockStmt (if length lst \<le> 1 then Block p (map (\<lambda>x. un (compileStatement un sp x)) lst)
                else Block 0 [compileDispatch un sp lst])"
  proof (cases lst)
    case Nil
    then show ?thesis by simp
  next
    case (Cons a r)
    then show ?thesis by (cases r) simp_all
  qed
next
  show "compileStatement un sp (CaseClause p l lst) =
     CaseClause p l (if length lst \<le> 1 then map (\<lambda>x. un (compileStatement un sp x)) lst
                     else [compileDispatch un sp lst])"
  proof (cases lst)
    case Nil
    then show ?thesis by simp
  next
    case (Cons a r)
    then show ?thesis by (cases r) simp_all
  qed
next
  show "compileDispatch un sp lst =
     SwitchStmt 0 None None (Block 0
       (map (\<lambda>j. CaseClause 0 [guardIP (end' (lookup sp (lst ! j)))]
               (un (compileStatement un sp (lst ! j)) #
                (if Suc j < length lst
                 then [assignIP (end' (lookup sp (lst ! j))), BranchStmt 0 FALLTHROUGH None]
                 else [])))
          [0..<length lst]))"
    by (simp only: compileDispatch.simps dispatchCases_map)
next
  show "compileStatement un sp (SwitchStmt p init tag (Block bp lst)) =
     SwitchStmt p init tag (Block bp (map (compileStatement un sp) lst))"
    by simp
qed

theorem statement_list_rewriting_witness:
  "compileStatement id spans3 (BlockStmt (Block 9 [EmptyStmt 1, EmptyStmt 2])) =
     BlockStmt (Block 0 [SwitchStmt 0 None None (Block 0
       [CaseClause 0 [BinaryExpr frameIP LSS (BasicLit INT' ''2'')]
          [EmptyStmt 1, AssignStmt 0 [frameIP] ASSIGN [BasicLit INT' ''2''],
           BranchStmt 0 FALLTHROUGH None],
        CaseClause 0 [BinaryExpr frameIP LSS (BasicLit INT' ''3'')] [EmptyStmt 2]])])
   \<and> compileStatement id spans3 (CaseClause 9 [] [EmptyStmt 1]) = CaseClause 9 [] [EmptyStmt 1]"
  using statement_list_rewriting [of id spans3 9 "[EmptyStmt 1, EmptyStmt 2]" "[]"]
    statement_list_rewriting [of id spans3 9 "[EmptyStmt 1]" "[]"]
  by (simp add: spans3_def lookup_def upt_rec guardIP_def assignIP_def Itoa_def digits.simps
      digit_def)

text \<open>
  C3, as amended.  For a for statement handed to \<^verbatim>\<open>compileStatement\<close>, the compiled
  body is the compiled body block with one statement appended, \<^verbatim>\<open>_f.IP = start\<close>,
  where \<open>start\<close> is the span start of the for statement (\<^verbatim>\<open>forSpan := spans[s]\<close>).
  Of an if statement \<^verbatim>\<open>compileStatement\<close> compiles the body and leaves the else branch
  as it is, so a for statement in an else branch is not handed to it.  When the body
  of the loop has two or more statements with ordered spans, none beginning before
  the span start of the loop, the dispatch block of the body, entered with that value
  of the instruction pointer, runs the statements of the body to the last, starting
  from the first statement whose span end lies beyond the span start of the loop; the
  statements in front of that one have the empty range at the span start of the loop.
  It starts from the first statement of the body when the range of that statement is
  not empty.
\<close>

theorem loop_body_reset:
  "(\<exists>bp lst. compileBlock un sp body = Block bp lst \<and>
      compileStatement un sp (ForStmt p init c post body) =
        ForStmt p init c post
          (Block bp (lst @ [assignIP (start (lookup sp (ForStmt p init c post body)))])))
   \<and> compileStatement un sp (IfStmt p' init' cond thn els) =
       IfStmt p' init' cond (compileBlock un sp thn) els
   \<and> (body = Block q stmts \<and> 2 \<le> length stmts \<and> ordered_spans (map (lookup sp) stmts) \<and>
        start (lookup sp (ForStmt p init c post body)) \<le> start (lookup sp (stmts ! 0)) \<longrightarrow>
        (let ip = start (lookup sp (ForStmt p init c post body));
             m = resumePoint sp ip stmts in
         compileBlock un sp body = Block 0 [compileDispatch un sp stmts] \<and>
         execSwitch ip (compileDispatch un sp stmts) =
           Some (concat (map (\<lambda>j. un (compileStatement un sp (stmts ! j)) #
                   (if Suc j < length stmts
                    then [assignIP (end' (lookup sp (stmts ! j))), BranchStmt 0 FALLTHROUGH None]
                    else []))
                 [m..<length stmts])) \<and>
         (\<forall>j<m. start (lookup sp (stmts ! j)) = ip \<and> end' (lookup sp (stmts ! j)) = ip) \<and>
         (start (lookup sp (stmts ! 0)) < end' (lookup sp (stmts ! 0)) \<longrightarrow> m = 0)))"
proof (intro conjI impI)
  show "\<exists>bp lst. compileBlock un sp body = Block bp lst \<and>
      compileStatement un sp (ForStmt p init c post body) =
        ForStmt p init c post
          (Block bp (lst @ [assignIP (start (lookup sp (ForStmt p init c post body)))]))"
    by (cases "compileBlock un sp body") simp
next
  show "compileStatement un sp (IfStmt p' init' cond thn els) =
       IfStmt p' init' cond (compileBlock un sp thn) els"
    by simp
next
  assume a: "body = Block q stmts \<and> 2 \<le> length stmts \<and> ordered_spans (map (lookup sp) stmts) \<and>
        start (lookup sp (ForStmt p init c post body)) \<le> start (lookup sp (stmts ! 0))"
  define ip where "ip = start (lookup sp (ForStmt p init c post body))"
  define m where "m = resumePoint sp ip stmts"
  from a have ord: "ordered_spans (map (lookup sp) stmts)" and len: "2 \<le> length stmts"
    and lo: "ip \<le> start (lookup sp (stmts ! 0))"
    by (auto simp: ip_def)
  from a obtain x y zs where stmts: "stmts = x # y # zs"
    by (cases stmts; cases "tl stmts") auto
  with a have blk: "compileBlock un sp body = Block 0 [compileDispatch un sp stmts]" by simp
  have run: "execSwitch ip (compileDispatch un sp stmts) =
           Some (concat (map (\<lambda>j. un (compileStatement un sp (stmts ! j)) #
                   (if Suc j < length stmts
                    then [assignIP (end' (lookup sp (stmts ! j))), BranchStmt 0 FALLTHROUGH None]
                    else []))
                 [m..<length stmts]))"
    unfolding m_def by (rule dispatch_resume)
  have mn: "m \<le> length stmts" unfolding m_def by (rule resumePoint_le)
  have skipped: "\<forall>j<m. start (lookup sp (stmts ! j)) = ip \<and> end' (lookup sp (stmts ! j)) = ip"
  proof (intro allI impI)
    fix j assume j: "j < m"
    with mn have jn: "j < length stmts" by simp
    from j have hi: "end' (lookup sp (stmts ! j)) \<le> ip"
      unfolding m_def by (rule resumePoint_before)
    have "start (lookup sp (stmts ! 0)) \<le> start (lookup sp (stmts ! j))"
    proof (cases j)
      case 0
      then show ?thesis by simp
    next
      case (Suc i)
      then have "0 < j" by simp
      from stmts have "0 < length stmts" by simp
      from ordered_spans_nth [OF ord \<open>0 < j\<close> jn] ordered_spans_wf [OF ord this]
      show ?thesis by simp
    qed
    with lo ordered_spans_wf [OF ord jn] hi
    show "start (lookup sp (stmts ! j)) = ip \<and> end' (lookup sp (stmts ! j)) = ip" by simp
  qed
  have first: "start (lookup sp (stmts ! 0)) < end' (lookup sp (stmts ! 0)) \<longrightarrow> m = 0"
  proof
    assume ne: "start (lookup sp (stmts ! 0)) < end' (lookup sp (stmts ! 0))"
    show "m = 0"
    proof (rule ccontr)
      assume "m \<noteq> 0"
      then have "0 < m" by simp
      with skipped have "start (lookup sp (stmts ! 0)) = end' (lookup sp (stmts ! 0))" by simp
      with ne show False by simp
    qed
  qed
  from blk run skipped first
  show "let ip = start (lookup sp (ForStmt p init c post body));
             m = resumePoint sp ip stmts in
         compileBlock un sp body = Block 0 [compileDispatch un sp stmts] \<and>
         execSwitch ip (compileDispatch un sp stmts) =
           Some (concat (map (\<lambda>j. un (compileStatement un sp (stmts ! j)) #
                   (if Suc j < length stmts
                    then [assignIP (end' (lookup sp (stmts ! j))), BranchStmt 0 FALLTHROUGH None]
                    else []))
                 [m..<length stmts])) \<and>
         (\<forall>j<m. start (lookup sp (stmts ! j)) = ip \<and> end' (lookup sp (stmts ! j)) = ip) \<and>
         (start (lookup sp (stmts ! 0)) < end' (lookup sp (stmts ! 0)) \<longrightarrow> m = 0)"
    unfolding Let_def ip_def [symmetric] m_def [symmetric] by blast
qed

theorem loop_body_reset_witness:
  "compileStatement id spansLoop (ForStmt 1 None None None loopBody) =
     ForStmt 1 None None None
       (Block 0 [compileDispatch id spansLoop [callStmt 3 ''a'', callStmt 4 ''b''], assignIP 0])
   \<and> execSwitch 0 (compileDispatch id spansLoop [callStmt 3 ''a'', callStmt 4 ''b'']) =
     Some [callStmt 3 ''a'', assignIP 1, BranchStmt 0 FALLTHROUGH None, callStmt 4 ''b'']"
  using loop_body_reset [of id spansLoop loopBody 1 None None None 0 None BadExpr "Block 0 []" None
      2 "[callStmt 3 ''a'', callStmt 4 ''b'']"]
  by (simp add: spansLoop_def loopBody_def callStmt_def lookup_def upt_rec resumePoint_def
      Let_def)

section \<open>Properties of the traversal\<close>

lemma fold_keeps_error:
  "(\<And>t e. t \<in> set ts \<Longrightarrow> g t (Some e) \<noteq> None) \<Longrightarrow> fold g ts (Some e) \<noteq> None"
proof (induction ts arbitrary: e)
  case Nil
  then show ?case by simp
next
  case (Cons a ts)
  from Cons.prems [of a e] obtain e' where a: "g a (Some e) = Some e'" by auto
  have "fold g ts (Some e') \<noteq> None"
    by (rule Cons.IH) (simp add: Cons.prems)
  with a show ?case by simp
qed

lemma Inspect_keeps_error:
  assumes keep: "\<And>n e. snd (f n (Some e)) \<noteq> None"
  shows "Inspect f t (Some e) \<noteq> None"
proof (induction t arbitrary: e)
  case (Walk n ts)
  obtain b s' where fn: "f n (Some e) = (b, s')" by (cases "f n (Some e)") auto
  with keep [of n e] obtain e' where s': "s' = Some e'" by auto
  show ?case
  proof (cases b)
    case True
    have "fold (Inspect f) ts (Some e') \<noteq> None"
      by (rule fold_keeps_error) (rule Walk.IH)
    with fn s' True show ?thesis by simp
  next
    case False
    with fn s' show ?thesis by simp
  qed
qed

lemma fold_clean:
  assumes keep: "\<And>t e. t \<in> set ts \<Longrightarrow> g t (Some e) \<noteq> None"
  shows "fold g ts None = None \<Longrightarrow> \<forall>t\<in>set ts. g t None = None"
  using keep
proof (induction ts)
  case Nil
  then show ?case by simp
next
  case (Cons a ts)
  have a: "g a None = None"
  proof (rule ccontr)
    assume "g a None \<noteq> None"
    then obtain e where e: "g a None = Some e" by auto
    have "fold g ts (Some e) \<noteq> None"
      by (rule fold_keeps_error) (simp add: Cons.prems)
    with e Cons.prems(1) show False by simp
  qed
  with Cons.prems(1) have "fold g ts None = None" by simp
  then have "\<forall>t\<in>set ts. g t None = None"
    by (rule Cons.IH) (simp add: Cons.prems)
  with a show ?case by simp
qed

lemma Inspect_clean:
  assumes keep: "\<And>n e. snd (f n (Some e)) \<noteq> None"
    and descend: "\<And>n b. f n None = (b, None) \<Longrightarrow> b"
  shows "Inspect f t None = None \<Longrightarrow> \<forall>n\<in>set (nodes t). snd (f n None) = None"
proof (induction t)
  case (Walk n ts)
  obtain b s' where fn: "f n None = (b, s')" by (cases "f n None") auto
  have s': "s' = None"
  proof (rule ccontr)
    assume "s' \<noteq> None"
    then obtain e where e: "s' = Some e" by auto
    have "fold (Inspect f) ts (Some e) \<noteq> None"
      by (rule fold_keeps_error, rule Inspect_keeps_error) (rule keep)
    with fn e Walk.prems show False by (cases b) simp_all
  qed
  with fn descend have b: b by simp
  with fn s' Walk.prems have fo: "fold (Inspect f) ts None = None" by simp
  have "\<forall>t\<in>set ts. Inspect f t None = None"
  proof (rule fold_clean [where g = "Inspect f"])
    show "fold (Inspect f) ts None = None" by (rule fo)
  next
    fix t e
    show "Inspect f t (Some e) \<noteq> None" by (rule Inspect_keeps_error) (rule keep)
  qed
  with Walk.IH have "\<forall>t\<in>set ts. \<forall>n\<in>set (nodes t). snd (f n None) = None" by blast
  with fn s' show ?case by auto
qed

lemma fold_all_clean: "(\<And>t. t \<in> set ts \<Longrightarrow> g t None = None) \<Longrightarrow> fold g ts None = None"
  by (induction ts) simp_all

lemma Inspect_all_clean:
  "(\<And>n. n \<in> set (nodes t) \<Longrightarrow> f n None = (True, None)) \<Longrightarrow> Inspect f t None = None"
proof (induction t)
  case (Walk n ts)
  have "f n None = (True, None)" by (rule Walk.prems) simp
  moreover have "fold (Inspect f) ts None = None"
  proof (rule fold_all_clean)
    fix t assume t: "t \<in> set ts"
    show "Inspect f t None = None"
    proof (rule Walk.IH [OF t])
      fix m assume "m \<in> set (nodes t)"
      with t show "f m None = (True, None)" by (intro Walk.prems) auto
    qed
  qed
  ultimately show ?case by simp
qed

lemma fold_origin:
  "fold g ts s = Some e \<Longrightarrow>
   s = Some e \<or> (\<exists>t\<in>set ts. \<exists>s0. s0 \<noteq> Some e \<and> g t s0 = Some e)"
proof (induction ts arbitrary: s)
  case Nil
  then show ?case by simp
next
  case (Cons a ts)
  from Cons.prems have "fold g ts (g a s) = Some e" by simp
  from Cons.IH [OF this] show ?case
  proof
    assume "g a s = Some e"
    then show ?thesis by (cases "s = Some e") auto
  next
    assume "\<exists>t\<in>set ts. \<exists>s0. s0 \<noteq> Some e \<and> g t s0 = Some e"
    then show ?thesis by auto
  qed
qed

lemma Inspect_origin:
  "Inspect f t s = Some e \<Longrightarrow>
   s = Some e \<or> (\<exists>n\<in>set (nodes t). \<exists>s0. s0 \<noteq> Some e \<and> snd (f n s0) = Some e)"
proof (induction t arbitrary: s)
  case (Walk n ts)
  obtain b s' where fn: "f n s = (b, s')" by (cases "f n s") auto
  have here: "s' = Some e \<Longrightarrow> ?case"
  proof -
    assume "s' = Some e"
    with fn have "snd (f n s) = Some e" by simp
    then show ?case by (cases "s = Some e") auto
  qed
  show ?case
  proof (cases b)
    case False
    with fn Walk.prems have "s' = Some e" by simp
    then show ?thesis by (rule here)
  next
    case True
    with fn Walk.prems have "fold (Inspect f) ts s' = Some e" by simp
    from fold_origin [OF this] show ?thesis
    proof
      assume "s' = Some e"
      then show ?thesis by (rule here)
    next
      assume "\<exists>t\<in>set ts. \<exists>s0. s0 \<noteq> Some e \<and> Inspect f t s0 = Some e"
      then obtain t s0 where t: "t \<in> set ts" and s0: "s0 \<noteq> Some e"
        and i: "Inspect f t s0 = Some e" by auto
      from Walk.IH [OF t i] s0
      obtain m s1 where "m \<in> set (nodes t)" "s1 \<noteq> Some e" "snd (f m s1) = Some e" by auto
      with t show ?thesis by auto
    qed
  qed
qed

section \<open>Properties of the two validation passes\<close>

lemma forPost_override:
  "forPost post err = (case forPost post None of None \<Rightarrow> err | Some x \<Rightarrow> Some x)"
  by (cases "(post, err)" rule: forPost.cases) (auto split: gexpr.splits)

lemma rejectStmt_override:
  "rejectStmt p s err = (case rejectStmt p s None of None \<Rightarrow> err | Some x \<Rightarrow> Some x)"
proof (cases s)
  case (RangeStmt q k v t x body)
  then show ?thesis by (simp split: gotype.splits)
next
  case (AssignStmt q lhs t rhs)
  then show ?thesis by (simp add: Let_def split: list.splits gexpr.splits)
next
  case (ForStmt q init c post body)
  then show ?thesis using forPost_override [of post err] by simp
qed simp_all

lemma gate_keep: "snd (gate p n (Some e)) \<noteq> None"
proof (cases n)
  case (NStmt s)
  have "rejectStmt p s (Some e) \<noteq> None"
    using rejectStmt_override [of p s "Some e"] by (simp split: option.splits)
  with NStmt show ?thesis by (cases e) (simp_all add: gate_def Let_def)
qed (simp_all add: gate_def split: error.splits)

lemma gate_descend: "gate p n None = (b, None) \<Longrightarrow> b"
  by (cases n) (auto simp: gate_def Let_def)

lemma gate_None: "snd (gate p n None) = (case n of NStmt s \<Rightarrow> rejectStmt p s None | _ \<Rightarrow> None)"
  by (cases n) (simp_all add: gate_def Let_def)

lemma gate_new_error:
  assumes "snd (gate p n s0) = Some e" and "s0 \<noteq> Some e"
  shows "\<exists>s. n = NStmt s \<and> rejectStmt p s None = Some e"
proof (cases n)
  case (NStmt s)
  from assms have np: "\<forall>m. s0 \<noteq> Some (Panic m)"
    by (auto simp: gate_def)
  with assms NStmt have "rejectStmt p s s0 = Some e"
    by (cases s0) (auto simp: gate_def Let_def split: error.splits)
  with rejectStmt_override [of p s s0] assms(2) have "rejectStmt p s None = Some e"
    by (simp split: option.splits)
  with NStmt show ?thesis by simp
qed (use assms in \<open>auto simp: gate_def split: option.splits error.splits\<close>)

lemma validate_rejects:
  assumes "NStmt s \<in> set (nodes (walkFuncDecl d))" and "rejectStmt p s None \<noteq> None"
  shows "validate p d \<noteq> None"
proof
  assume "validate p d = None"
  then have "Inspect (gate p) (walkFuncDecl d) None = None" by (simp add: validate_def)
  then have "\<forall>n\<in>set (nodes (walkFuncDecl d)). snd (gate p n None) = None"
    by (rule Inspect_clean [rotated 2]) (rule gate_keep, rule gate_descend)
  with assms(1) have "snd (gate p (NStmt s) None) = None" by blast
  with assms(2) show False by (simp add: gate_None)
qed

lemma validate_origin:
  assumes "validate p d = Some e"
  shows "\<exists>s. NStmt s \<in> set (nodes (walkFuncDecl d)) \<and> rejectStmt p s None = Some e"
proof -
  from assms have "Inspect (gate p) (walkFuncDecl d) None = Some e" by (simp add: validate_def)
  from Inspect_origin [OF this]
  obtain n s0 where n: "n \<in> set (nodes (walkFuncDecl d))" and "s0 \<noteq> Some e"
    and "snd (gate p n s0) = Some e" by auto
  with gate_new_error [of p n s0 e] show ?thesis by auto
qed

lemma rejected_category:
  "unconditionallyRejected s \<Longrightarrow>
   rejectStmt p s err = Some (Error (''not implemented: '' @ category s))"
proof (cases s)
  case (AssignStmt q lhs t rhs)
  assume "unconditionallyRejected s"
  with AssignStmt show ?thesis
    by (auto simp: Let_def split: list.splits gexpr.splits)
qed auto

lemma colorsByDecl_mem:
  "colorsByDecl cs m0 = Inr m \<Longrightarrow>
   ((f, color) \<in> set cs \<and> Syntax' f = SyntaxFuncDecl d \<longrightarrow> m d \<noteq> None) \<and>
   (m0 d \<noteq> None \<longrightarrow> m d \<noteq> None)"
proof (induction cs arbitrary: m0)
  case Nil
  then show ?case by simp
next
  case (Cons a cs)
  obtain g col where a: "a = (g, col)" by (cases a)
  show ?case
  proof (cases "Syntax' g")
    case (SyntaxFuncDecl d')
    with Cons.prems a have "colorsByDecl cs (m0(d' \<mapsto> col)) = Inr m" by simp
    from Cons.IH [OF this] a SyntaxFuncDecl show ?thesis by auto
  next
    case (SyntaxOther t)
    with Cons.prems a show ?thesis by simp
  qed
qed

lemma compileDecls_rejects:
  "FuncDecl d \<in> set decls \<Longrightarrow> m d \<noteq> None \<Longrightarrow> validate p d \<noteq> None \<Longrightarrow>
   \<exists>e. compileDecls h p m decls gen = Inl e"
proof (induction decls arbitrary: gen)
  case Nil
  then show ?case by simp
next
  case (Cons a decls)
  show ?case
  proof (cases a)
    case (GenDecl k specs)
    with Cons show ?thesis by auto
  next
    case (FuncDecl d')
    show ?thesis
    proof (cases "d' = d")
      case True
      with FuncDecl Cons.prems show ?thesis by auto
    next
      case False
      with FuncDecl Cons.prems have "FuncDecl d \<in> set decls" by simp
      from Cons.IH [OF this Cons.prems(2,3)] FuncDecl show ?thesis
        by (auto split: option.splits)
    qed
  qed
qed

text \<open>
  C9, as amended.  When a colored function of the package contains a construct of the
  list, the closure gives that construct its own error, \<^verbatim>\<open>not implemented:\<close> and the
  name of the construct; the validation of the function fails with the error of one
  of the statements of the function that the closure rejects (not always this one);
  and \<^verbatim>\<open>compilePackage\<close> returns an error with the file system as it was, no
  output file created.
\<close>

theorem rejected_constructs:
  assumes "(f, color) \<in> set colors" and "Syntax' f = SyntaxFuncDecl d"
    and "FuncDecl d \<in> set (concat (Syntax p))"
    and "NStmt s \<in> set (nodes (walkFuncDecl d))" and "unconditionallyRejected s"
  shows "rejectStmt p s err = Some (Error (''not implemented: '' @ category s))
    \<and> (\<exists>e s'. validate p d = Some e \<and> NStmt s' \<in> set (nodes (walkFuncDecl d)) \<and>
          rejectStmt p s' None = Some e)
    \<and> (\<exists>e. compilePackage c os h p colors fs = (Some e, fs))"
proof (intro conjI)
  show "rejectStmt p s err = Some (Error (''not implemented: '' @ category s))"
    by (rule rejected_category [OF assms(5)])
next
  from rejected_category [OF assms(5), of p None]
  have "validate p d \<noteq> None" by (intro validate_rejects [OF assms(4)]) simp
  then obtain e where "validate p d = Some e" by auto
  with validate_origin [OF this]
  show "\<exists>e s'. validate p d = Some e \<and> NStmt s' \<in> set (nodes (walkFuncDecl d)) \<and>
          rejectStmt p s' None = Some e"
    by auto
next
  from rejected_category [OF assms(5), of p None]
  have v: "validate p d \<noteq> None" by (intro validate_rejects [OF assms(4)]) simp
  show "\<exists>e. compilePackage c os h p colors fs = (Some e, fs)"
  proof (cases "colorsByDecl colors Map.empty")
    case (Inl e)
    then show ?thesis by (simp add: compilePackage_def)
  next
    case (Inr m)
    from colorsByDecl_mem [OF this, of f color d] assms(1,2) have "m d \<noteq> None" by simp
    from compileDecls_rejects [where m = m and d = d, OF assms(3) this v]
    obtain e where "compileDecls h p m (concat (Syntax p))
        [GenDecl IMPORT [ImportSpec (BasicLit STRING (Quote os coroutinePackage))]] = Inl e"
      by blast
    with Inr show ?thesis by (simp add: compilePackage_def)
  qed
qed

theorem rejected_constructs_witness:
  "rejectStmt pkgWork deferDone None = Some (Error ''not implemented: defer'')
   \<and> (\<exists>e. compilePackage c0 os0 h0 pkgWork colorsWork Map.empty = (Some e, Map.empty))"
  using rejected_constructs [of "\<lparr>String' = ''main.work'', Syntax' = SyntaxFuncDecl work\<rparr>"
      yieldInt colorsWork work pkgWork deferDone None c0 os0 h0 Map.empty]
  by (simp add: colorsWork_def pkgWork_def work_def deferDone_def walkFuncDecl_def
      fieldList_def leaf_def opt_def)

text \<open>
  C9 as stated fails: the function contains a \<^verbatim>\<open>defer\<close>, and the error returned names
  the range loop that follows it.
\<close>

theorem rejected_constructs_counterexample:
  "NStmt deferDone \<in> set (nodes (walkFuncDecl work))
   \<and> unconditionallyRejected deferDone
   \<and> fst (compilePackage c0 os0 h0 pkgWork colorsWork Map.empty) =
       Some (Error ''not implemented: for range for *types.Map'')
   \<and> fst (compilePackage c0 os0 h0 pkgWork colorsWork Map.empty) \<noteq>
       Some (Error ''not implemented: defer'')"
  by (simp add: compilePackage_def colorsWork_def pkgWork_def work_def deferDone_def
      walkFuncDecl_def fieldList_def leaf_def opt_def validate_def gate_def)

lemma labeled_override:
  "labeled s err = (case labeled s None of None \<Rightarrow> err | Some x \<Rightarrow> Some x)"
  by (cases s) simp_all

lemma unsupportedStmt_override:
  "unsupportedStmt s err = (case unsupportedStmt s None of None \<Rightarrow> err | Some x \<Rightarrow> Some x)"
proof (cases s)
  case (LabeledStmt q l s')
  then show ?thesis using labeled_override [of s' err] by simp
next
  case (ForStmt q init c post body)
  then show ?thesis using forPost_override [of post err] by simp
qed simp_all

lemma unsupportedExpr_override:
  "unsupportedExpr U info e err =
     (case unsupportedExpr U info e None of None \<Rightarrow> err | Some x \<Rightarrow> Some x)"
  by (cases e) (simp_all add: Let_def)

lemma unsupportedNode_keep: "snd (unsupportedNode U info n (Some e)) \<noteq> None"
proof (cases n)
  case (NExpr x)
  then show ?thesis
    using unsupportedExpr_override [of U info x "Some e"]
    by (simp add: Let_def del: unsupportedExpr.simps split: option.splits)
next
  case (NStmt x)
  then show ?thesis
    using unsupportedStmt_override [of x "Some e"]
    by (simp add: Let_def split: option.splits)
qed simp_all

lemma unsupportedNode_descend: "unsupportedNode U info n None = (b, None) \<Longrightarrow> b"
  by (cases n) (auto simp: Let_def simp del: unsupportedExpr.simps)

lemma unsupportedNode_clean:
  "snd (unsupportedNode U info n None) = None \<Longrightarrow> unsupportedNode U info n None = (True, None)"
  by (cases n) (auto simp: Let_def simp del: unsupportedExpr.simps)

lemma unsupported_None_iff:
  "(unsupported U d info = None) =
     (\<forall>n\<in>set (nodes (walkFuncDecl d)). snd (unsupportedNode U info n None) = None)"
proof
  assume "unsupported U d info = None"
  then have "Inspect (unsupportedNode U info) (walkFuncDecl d) None = None"
    by (simp add: unsupported_def)
  then show "\<forall>n\<in>set (nodes (walkFuncDecl d)). snd (unsupportedNode U info n None) = None"
    by (rule Inspect_clean [rotated 2]) (rule unsupportedNode_keep, rule unsupportedNode_descend)
next
  assume a: "\<forall>n\<in>set (nodes (walkFuncDecl d)). snd (unsupportedNode U info n None) = None"
  have "Inspect (unsupportedNode U info) (walkFuncDecl d) None = None"
    by (rule Inspect_all_clean) (use a in \<open>auto intro: unsupportedNode_clean\<close>)
  then show "unsupported U d info = None" by (simp add: unsupported_def)
qed

text \<open>
  C7, as amended.  The pass of \<^verbatim>\<open>compilePackage\<close> gives every break and every continue
  statement a \<^verbatim>\<open>not implemented\<close> error, and so rejects every function that contains
  one.  The pass \<^verbatim>\<open>unsupported\<close> rejects, of the branch statements, only \<^verbatim>\<open>goto\<close> and
  \<^verbatim>\<open>fallthrough\<close>; it accepts a function exactly when its closure accepts every node
  of it, and it accepts every break and continue statement.  So the two passes
  disagree on a function with a break or continue only if nothing else in the
  function is rejected by \<^verbatim>\<open>unsupported\<close>; otherwise both reject it.
\<close>

theorem break_continue_passes:
  "rejectStmt p (BranchStmt q BREAK l) err = Some (Error ''not implemented: break'')
   \<and> rejectStmt p (BranchStmt q CONTINUE l) err = Some (Error ''not implemented: continue'')
   \<and> unsupportedStmt (BranchStmt q t l) err =
       (if t = GOTO then Some (Error ''not implemented: goto'')
        else if t = FALLTHROUGH then Some (Error ''not implemented: fallthrough'')
        else err)
   \<and> (NStmt (BranchStmt q t l) \<in> set (nodes (walkFuncDecl d)) \<and> (t = BREAK \<or> t = CONTINUE) \<longrightarrow>
        validate p d \<noteq> None)
   \<and> (unsupported U d info = None) =
       (\<forall>n\<in>set (nodes (walkFuncDecl d)). snd (unsupportedNode U info n None) = None)
   \<and> (t = BREAK \<or> t = CONTINUE \<longrightarrow>
        snd (unsupportedNode U info (NStmt (BranchStmt q t l)) None) = None)"
proof (intro conjI impI)
  assume a: "NStmt (BranchStmt q t l) \<in> set (nodes (walkFuncDecl d)) \<and> (t = BREAK \<or> t = CONTINUE)"
  then have "rejectStmt p (BranchStmt q t l) None \<noteq> None" by auto
  with a show "validate p d \<noteq> None" by (intro validate_rejects [of "BranchStmt q t l"]) simp_all
next
  show "(unsupported U d info = None) =
       (\<forall>n\<in>set (nodes (walkFuncDecl d)). snd (unsupportedNode U info n None) = None)"
    by (rule unsupported_None_iff)
qed auto

theorem break_continue_passes_witness:
  "NStmt breakStmt \<in> set (nodes (walkFuncDecl spin))
   \<and> validate pkgWork spin \<noteq> None \<and> unsupported universe0 spin infoNone = None"
  using break_continue_passes [of pkgWork 24 None None BREAK spin universe0 infoNone]
  by (simp add: spin_def breakStmt_def walkFuncDecl_def fieldList_def leaf_def opt_def
      countFunctionCalls_def)

text \<open>
  C7 as stated fails: a function with a bare \<^verbatim>\<open>break\<close> that both passes reject.
\<close>

theorem break_continue_passes_counterexample:
  "NStmt breakStmt \<in> set (nodes (walkFuncDecl spinDefer))
   \<and> validate pkgWork spinDefer = Some (Error ''not implemented: defer'')
   \<and> unsupported universe0 spinDefer infoNone = Some (Error ''not implemented: defer'')"
  by (simp add: spinDefer_def breakStmt_def deferDone_def walkFuncDecl_def fieldList_def leaf_def
      opt_def countFunctionCalls_def validate_def unsupported_def gate_def infoNone_def
      universe0_def)

lemma fold_fixed: "(\<And>n. g n z = z) \<Longrightarrow> fold g ns z = z"
  by (induction ns) simp_all

lemma fold_concat_list: "fold g (concat xss) s = fold (fold g) xss s"
  by (induction xss arbitrary: s) simp_all

lemma Inspect_fold:
  assumes stop: "\<And>n s m. \<not> fst (f n s) \<Longrightarrow> snd (f m (snd (f n s))) = snd (f n s)"
  shows "Inspect f t s = fold (\<lambda>n s. snd (f n s)) (nodes t) s"
proof (induction t arbitrary: s)
  case (Walk n ts)
  obtain b s' where fn: "f n s = (b, s')" by (cases "f n s") auto
  show ?case
  proof (cases b)
    case True
    have "fold (Inspect f) ts s' = fold (fold (\<lambda>n s. snd (f n s))) (map nodes ts) s'"
      unfolding fold_map by (rule fold_cong) (auto simp: Walk.IH)
    with fn True show ?thesis by (simp add: fold_concat_list)
  next
    case False
    with fn stop [of n s] have "\<And>m. snd (f m s') = s'" by simp
    then have "fold (\<lambda>n s. snd (f n s)) (concat (map nodes ts)) s' = s'"
      by (rule fold_fixed)
    with fn False show ?thesis by simp
  qed
qed

lemma countCall_counted:
  "countCall U info n c = (True, if countedCall U info n then c + 1 else c)"
  by (cases "(U, info, n, c)" rule: countCall.cases) simp_all

lemma fold_count:
  "fold (\<lambda>n c. if P n then c + 1 else c) ns (c :: nat) = c + length (filter P ns)"
  by (induction ns arbitrary: c) simp_all

lemma countFunctionCalls_filter:
  "countFunctionCalls U info e = length (filter (countedCall U info) (nodes (walkExpr e)))"
proof -
  have "Inspect (countCall U info) (walkExpr e) 0 =
      fold (\<lambda>n s. snd (countCall U info n s)) (nodes (walkExpr e)) 0"
    by (rule Inspect_fold) (simp add: countCall_counted)
  then show ?thesis
    by (simp add: countFunctionCalls_def countCall_counted fold_count)
qed

lemma unsupportedExpr_cases:
  "unsupportedExpr U info e err =
     (if 1 < countFunctionCalls U info e
      then Some (Error ''not implemented: multiple function calls in an expression'')
      else if isFuncLit e then Some (Error ''not implemented: func literals'')
      else err)"
  by (cases e) (simp_all add: Let_def)

text \<open>
  C8, as amended.  \<^verbatim>\<open>unsupported\<close> rejects a function that contains an expression in
  which \<^verbatim>\<open>countFunctionCalls\<close> counts more than one call, or a function literal; the
  closure gives these the errors \<^verbatim>\<open>multiple function calls in an expression\<close> and
  \<^verbatim>\<open>func literals\<close>.  The count is the number of calls in the expression that are
  not skipped, and a call is skipped exactly when its callee is an identifier that
  denotes the universe object of its name or a type name, or is a selector on an
  identifier that denotes the package \<^verbatim>\<open>unsafe\<close>.
\<close>

theorem multiple_calls_and_literals:
  "(NExpr e \<in> set (nodes (walkFuncDecl d)) \<and> (1 < countFunctionCalls U info e \<or> isFuncLit e) \<longrightarrow>
      unsupported U d info \<noteq> None)
   \<and> unsupportedExpr U info e err =
       (if 1 < countFunctionCalls U info e
        then Some (Error ''not implemented: multiple function calls in an expression'')
        else if isFuncLit e then Some (Error ''not implemented: func literals'')
        else err)
   \<and> countFunctionCalls U info e = length (filter (countedCall U info) (nodes (walkExpr e)))
   \<and> countedCall U info (NExpr (CallExpr callee args)) = (\<not> skipCall U info callee)
   \<and> skipCall U info (Id g) =
       (U (Name g) = ObjectOf info g \<or> (\<exists>a. ObjectOf info g = Some (TypeName a)))
   \<and> skipCall U info (SelectorExpr (Id x) sel) = (\<exists>a. ObjectOf info x = Some (PkgName a ''unsafe''))
   \<and> ((\<forall>g. callee \<noteq> Id g) \<and> (\<forall>x sel. callee \<noteq> SelectorExpr (Id x) sel) \<longrightarrow>
        \<not> skipCall U info callee)"
proof (intro conjI impI)
  assume a: "NExpr e \<in> set (nodes (walkFuncDecl d)) \<and> (1 < countFunctionCalls U info e \<or> isFuncLit e)"
  then have "unsupportedExpr U info e None \<noteq> None"
    by (auto simp: unsupportedExpr_cases simp del: unsupportedExpr.simps)
  then have "snd (unsupportedNode U info (NExpr e) None) \<noteq> None"
    by (simp add: Let_def del: unsupportedExpr.simps)
  have r: "snd (unsupportedNode U info (NExpr e) None) \<noteq> None" by fact
  show "unsupported U d info \<noteq> None"
  proof
    assume "unsupported U d info = None"
    then have "\<forall>n\<in>set (nodes (walkFuncDecl d)). snd (unsupportedNode U info n None) = None"
      by (simp only: unsupported_None_iff)
    with a have "snd (unsupportedNode U info (NExpr e) None) = None" by blast
    with r show False by simp
  qed
next
  show "unsupportedExpr U info e err =
       (if 1 < countFunctionCalls U info e
        then Some (Error ''not implemented: multiple function calls in an expression'')
        else if isFuncLit e then Some (Error ''not implemented: func literals'')
        else err)"
    by (rule unsupportedExpr_cases)
next
  show "countFunctionCalls U info e = length (filter (countedCall U info) (nodes (walkExpr e)))"
    by (rule countFunctionCalls_filter)
next
  show "skipCall U info (Id g) =
       (U (Name g) = ObjectOf info g \<or> (\<exists>a. ObjectOf info g = Some (TypeName a)))"
    by (auto simp: Let_def split: option.splits tobject.splits)
next
  show "skipCall U info (SelectorExpr (Id x) sel) =
       (\<exists>a. ObjectOf info x = Some (PkgName a ''unsafe''))"
    by (auto split: option.splits tobject.splits)
next
  assume "(\<forall>g. callee \<noteq> Id g) \<and> (\<forall>x sel. callee \<noteq> SelectorExpr (Id x) sel)"
  then have "skipCall U info callee = False"
    by (cases "(U, info, callee)" rule: skipCall.cases) auto
  then show "\<not> skipCall U info callee" by simp
qed simp

theorem multiple_calls_and_literals_witness:
  "NExpr nested \<in> set (nodes (walkFuncDecl twice))
   \<and> countFunctionCalls universe0 infoUnsafe nested = 2
   \<and> unsupported universe0 twice infoUnsafe \<noteq> None"
  using multiple_calls_and_literals [of nested twice universe0 infoUnsafe]
  by (simp add: twice_def nested_def walkFuncDecl_def fieldList_def leaf_def opt_def
      countFunctionCalls_def infoUnsafe_def universe0_def)

text \<open>
  C8 as stated fails: an expression with two calls, neither a built-in of the
  universe nor a conversion, that \<^verbatim>\<open>unsupported\<close> accepts.
\<close>

theorem multiple_calls_and_literals_counterexample:
  "NExpr sizes \<in> set (nodes (walkFuncDecl measure'))
   \<and> claimedCount universe0 infoUnsafe sizes = 2
   \<and> countFunctionCalls universe0 infoUnsafe sizes = 0
   \<and> unsupported universe0 measure' infoUnsafe = None"
  by (simp add: measure'_def sizes_def walkFuncDecl_def fieldList_def leaf_def opt_def
      countFunctionCalls_def claimedCount_def infoUnsafe_def universe0_def unsupported_def)

section \<open>Properties of \<^verbatim>\<open>compileFunction\<close>\<close>

lemma compileFunction_shape:
  assumes "compileFunction h p fn color = Some gen"
  shows "\<exists>t0 t1 body sc q compiled.
      At (Params color) 0 = Some t0 \<and> At (Results color) 0 = Some t1 \<and> Body fn = Some body \<and>
      scanned h p body = Some sc \<and>
      compileBlock (unnestBlocks h) (trackSpans h (BlockStmt (rewritten h p body sc)))
        (rewritten h p body sc) = Block q compiled \<and>
      gen = \<lparr>Recv = None, Name' = Name' fn, Type = Type fn,
             Body = Some (Block 0
               ([loadContext [typeExpr h t0, typeExpr h t1], pushFrame] @
                declareVars h (varNames sc) (varTypes sc) @
                [restoreState h (saveAndRestoreNames fn (varNames sc))
                   (saveAndRestoreTypes p fn (varTypes sc)),
                 saveState (saveAndRestoreNames fn (varNames sc))] @
                compiled))\<rparr>"
proof -
  from assms obtain t0 t1 body where a: "At (Params color) 0 = Some t0"
      "At (Results color) 0 = Some t1" "Body fn = Some body"
    by (auto simp: compileFunction_def split: option.splits)
  from assms a obtain sc where sc: "scanned h p body = Some sc"
    by (auto simp: compileFunction_def scanned_def Let_def split: option.splits)
  obtain q compiled where c: "compileBlock (unnestBlocks h)
      (trackSpans h (BlockStmt (rewritten h p body sc))) (rewritten h p body sc) = Block q compiled"
    by (cases "compileBlock (unnestBlocks h)
      (trackSpans h (BlockStmt (rewritten h p body sc))) (rewritten h p body sc)") auto
  from assms a sc c have "gen = \<lparr>Recv = None, Name' = Name' fn, Type = Type fn,
             Body = Some (Block 0
               ([loadContext [typeExpr h t0, typeExpr h t1], pushFrame] @
                declareVars h (varNames sc) (varTypes sc) @
                [restoreState h (saveAndRestoreNames fn (varNames sc))
                   (saveAndRestoreTypes p fn (varTypes sc)),
                 saveState (saveAndRestoreNames fn (varNames sc))] @
                compiled))\<rparr>"
    by (simp add: compileFunction_def scanned_def rewritten_def Let_def)
  with a sc c show ?thesis by blast
qed

lemma map_of_zip_snoc:
  "length ks = length vs \<Longrightarrow> k \<notin> set ks \<Longrightarrow>
   map_of (zip (ks @ [k]) (vs @ [v])) = (map_of (zip ks vs))(k \<mapsto> v)"
proof -
  assume l: "length ks = length vs" and k: "k \<notin> set ks"
  from l have "dom (map_of (zip ks vs)) = set ks" by (rule dom_map_of_zip)
  with k have n: "map_of (zip ks vs) k = None" by blast
  from l have "map_of (zip (ks @ [k]) (vs @ [v])) = map_of [(k, v)] ++ map_of (zip ks vs)"
    by (simp add: map_add_def)
  also have "\<dots> = (map_of (zip ks vs))(k \<mapsto> v)"
    using n by (auto simp: map_add_def fun_eq_iff split: option.splits)
  finally show ?thesis .
qed

lemma scanInv_lookup:
  assumes "scanInv p s acc"
  shows "(objectVars s ob \<noteq> None) = (Some ob \<in> Obj ` set acc)"
proof -
  from assms have o: "objectVars s = map_of (zip (map (\<lambda>i. the (Obj i)) acc) (varNames s))"
    and l: "length (varNames s) = length acc" and n: "\<forall>x\<in>set acc. Obj x \<noteq> None"
    by (simp_all add: scanInv_def)
  from l have "dom (map_of (zip (map (\<lambda>i. the (Obj i)) acc) (varNames s))) =
      set (map (\<lambda>i. the (Obj i)) acc)"
    by (intro dom_map_of_zip) simp
  then have "(objectVars s ob \<noteq> None) = (ob \<in> set (map (\<lambda>i. the (Obj i)) acc))"
    unfolding o by (auto simp: dom_def)
  also have "\<dots> = (Some ob \<in> Obj ` set acc)"
    using n by (force simp: image_iff)
  finally show ?thesis .
qed

lemma scanAssign_step:
  assumes inv: "scanInv p s acc"
  shows "snd (scanAssign p n (Some s)) = None \<or>
     (\<exists>s'. snd (scanAssign p n (Some s)) = Some s' \<and>
        scanInv p s' (case scanTarget n of None \<Rightarrow> acc | Some x \<Rightarrow> keepFirst acc x))"
proof (cases "scanTarget n")
  case None
  then have "snd (scanAssign p n (Some s)) = None \<or> snd (scanAssign p n (Some s)) = Some s"
    by (cases n rule: scanTarget.cases)
      (auto simp: scanAssign_def split: list.splits gexpr.splits gstmt.splits node.splits
         option.splits)
  with None inv show ?thesis by auto
next
  case (Some x)
  then obtain q r t rhs where n: "n = NStmt (AssignStmt q (Id x # r) t rhs)"
    and ob: "Obj x \<noteq> None"
    by (cases n rule: scanTarget.cases) (auto split: if_splits)
  from ob obtain ob' where ob': "Obj x = Some ob'" by auto
  show ?thesis
  proof (cases "Obj x \<in> Obj ` set acc")
    case True
    with scanInv_lookup [OF inv, of ob'] ob' have "objectVars s ob' \<noteq> None" by simp
    with n ob' have "snd (scanAssign p n (Some s)) = Some s" by (simp add: scanAssign_def)
    with True Some inv show ?thesis by (simp add: keepFirst_def)
  next
    case False
    with scanInv_lookup [OF inv, of ob'] ob' have no: "objectVars s ob' = None" by simp
    let ?v = "NewIdent (''_v'' @ Itoa (int (length (varNames s))))"
    let ?s' = "\<lparr>objectVars = (objectVars s)(ob' \<mapsto> ?v), varNames = varNames s @ [?v],
                varTypes = varTypes s @ [TypeOf (TypesInfo p) (Id x)]\<rparr>"
    from n ob' no have step: "snd (scanAssign p n (Some s)) = Some ?s'"
      by (simp add: scanAssign_def Let_def)
    from inv have l: "length (varNames s) = length acc" by (simp add: scanInv_def)
    from False ob' inv have nk: "ob' \<notin> set (map (\<lambda>i. the (Obj i)) acc)"
      by (force simp: scanInv_def image_iff)
    have "scanInv p ?s' (acc @ [x])"
      using inv l ob' False nk
      by (simp add: scanInv_def slotName_def map_of_zip_snoc [symmetric])
    with step Some False show ?thesis by (simp add: keepFirst_def)
  qed
qed

lemma scan_fold_None: "fold (\<lambda>n s. snd (scanAssign p n s)) ns None = None"
  by (rule fold_fixed) (simp add: scanAssign_def)

lemma scan_fold:
  "fold (\<lambda>n s. snd (scanAssign p n s)) ns (Some s) = Some s' \<Longrightarrow> scanInv p s acc \<Longrightarrow>
   scanInv p s' (foldl keepFirst acc (List.map_filter scanTarget ns))"
proof (induction ns arbitrary: s acc)
  case Nil
  then show ?case by simp
next
  case (Cons n ns)
  from scanAssign_step [OF Cons.prems(2), of n] show ?case
  proof
    assume "snd (scanAssign p n (Some s)) = None"
    with Cons.prems(1) scan_fold_None [of p ns] show ?thesis by simp
  next
    assume "\<exists>s1. snd (scanAssign p n (Some s)) = Some s1 \<and>
        scanInv p s1 (case scanTarget n of None \<Rightarrow> acc | Some x \<Rightarrow> keepFirst acc x)"
    then obtain s1 where s1: "snd (scanAssign p n (Some s)) = Some s1"
      and inv: "scanInv p s1 (case scanTarget n of None \<Rightarrow> acc | Some x \<Rightarrow> keepFirst acc x)"
      by blast
    from Cons.prems(1) s1 have "fold (\<lambda>n s. snd (scanAssign p n s)) ns (Some s1) = Some s'"
      by simp
    from Cons.IH [OF this inv] show ?thesis
      by (cases "scanTarget n") simp_all
  qed
qed

lemma scanned_inv:
  assumes "scanned h p body = Some sc"
  shows "scanInv p sc (firstAssigned (nodes (walkBlock (desugar h body (TypesInfo p)))))"
proof -
  let ?init = "\<lparr>objectVars = Map.empty, varNames = [], varTypes = []\<rparr>"
  have "Inspect (scanAssign p) (walkBlock (desugar h body (TypesInfo p))) (Some ?init) =
      fold (\<lambda>n s. snd (scanAssign p n s)) (nodes (walkBlock (desugar h body (TypesInfo p))))
        (Some ?init)"
  proof (rule Inspect_fold)
    fix n s m
    assume "\<not> fst (scanAssign p n s)"
    then have "snd (scanAssign p n s) = None"
      by (auto simp: scanAssign_def Let_def split: option.splits node.splits gstmt.splits
          list.splits gexpr.splits if_splits)
    then show "snd (scanAssign p m (snd (scanAssign p n s))) = snd (scanAssign p n s)"
      by (simp add: scanAssign_def)
  qed
  with assms have "fold (\<lambda>n s. snd (scanAssign p n s))
      (nodes (walkBlock (desugar h body (TypesInfo p)))) (Some ?init) = Some sc"
    by (simp add: scanned_def)
  moreover have "scanInv p ?init []" by (simp add: scanInv_def)
  ultimately show ?thesis unfolding firstAssigned_def by (rule scan_fold)
qed

lemma scanned_lengths:
  assumes "scanned h p body = Some sc"
  shows "length (varTypes sc) = length (varNames sc)"
  using scanned_inv [OF assms] by (simp add: scanInv_def)

lemma length_saveAndRestore:
  "length vt = length vn \<Longrightarrow>
   length (saveAndRestoreTypes p fn vt) = length (saveAndRestoreNames fn vn)"
  by (cases "Type fn") (simp add: saveAndRestoreTypes_def saveAndRestoreNames_def)






text \<open>
  C5.  The statement after the restore is a \<^verbatim>\<open>defer\<close> of a function literal, in front
  of the whole compiled body.  The literal consists of one \<^verbatim>\<open>if\<close> on
  \<^verbatim>\<open>_c.Unwinding()\<close>: when the context is unwinding it runs \<^verbatim>\<open>_f.Set(i, name)\<close> for
  every slot \<open>i\<close> of the plan and nothing else; otherwise it runs \<^verbatim>\<open>_c.Pop()\<close> and
  nothing else.
\<close>

theorem frame_epilogue:
  assumes "compileFunction h p fn color = Some gen"
  shows "\<exists>body sc names pre q compiled handler.
      Body fn = Some body \<and> scanned h p body = Some sc \<and>
      names = saveAndRestoreNames fn (varNames sc) \<and>
      compileBlock (unnestBlocks h) (trackSpans h (BlockStmt (rewritten h p body sc)))
        (rewritten h p body sc) = Block q compiled \<and>
      Body gen = Some (Block 0 (pre @ [saveState names] @ compiled)) \<and>
      deferred (saveState names) = Some [handler] \<and>
      (\<forall>u. execIf (unwinding u) handler =
         Some (if u then saveStmts names
               else [ExprStmt 0
                       (CallExpr (SelectorExpr (Id (NewIdent ''_c'')) (NewIdent ''Pop'')) [])])) \<and>
      saveStmts names =
        map (\<lambda>i. ExprStmt 0
                   (CallExpr (SelectorExpr (Id (NewIdent ''_f'')) (NewIdent ''Set''))
                      [BasicLit INT' (Itoa (int i)), Id (names ! i)]))
          [0..<length names] \<and>
      ExprStmt 0 (CallExpr (SelectorExpr (Id (NewIdent ''_c'')) (NewIdent ''Pop'')) [])
        \<notin> set (saveStmts names)"
proof -
  from compileFunction_shape [OF assms]
  obtain t0 t1 body sc q compiled where b: "Body fn = Some body"
    and sc: "scanned h p body = Some sc"
    and c: "compileBlock (unnestBlocks h) (trackSpans h (BlockStmt (rewritten h p body sc)))
        (rewritten h p body sc) = Block q compiled"
    and g: "gen = \<lparr>Recv = None, Name' = Name' fn, Type = Type fn,
             Body = Some (Block 0
               ([loadContext [typeExpr h t0, typeExpr h t1], pushFrame] @
                declareVars h (varNames sc) (varTypes sc) @
                [restoreState h (saveAndRestoreNames fn (varNames sc))
                   (saveAndRestoreTypes p fn (varTypes sc)),
                 saveState (saveAndRestoreNames fn (varNames sc))] @
                compiled))\<rparr>"
    by blast
  let ?names = "saveAndRestoreNames fn (varNames sc)"
  let ?handler = "IfStmt 0 None
       (CallExpr (SelectorExpr (Id (NewIdent ''_c'')) (NewIdent ''Unwinding'')) [])
       (Block 0 (saveStmts ?names))
       (Some (BlockStmt (Block 0
          [ExprStmt 0 (CallExpr (SelectorExpr (Id (NewIdent ''_c'')) (NewIdent ''Pop'')) [])])))"
  from g have body: "Body gen = Some (Block 0
      (([loadContext [typeExpr h t0, typeExpr h t1], pushFrame] @
        declareVars h (varNames sc) (varTypes sc) @
        [restoreState h ?names (saveAndRestoreTypes p fn (varTypes sc))]) @
       [saveState ?names] @ compiled))"
    by simp
  have d: "deferred (saveState ?names) = Some [?handler]" by (simp add: saveState_def)
  have run: "\<forall>u. execIf (unwinding u) ?handler =
         Some (if u then saveStmts ?names
               else [ExprStmt 0
                       (CallExpr (SelectorExpr (Id (NewIdent ''_c'')) (NewIdent ''Pop'')) [])])"
    by (simp add: unwinding_def)
  have shape: "saveStmts ?names =
        map (\<lambda>i. ExprStmt 0
                   (CallExpr (SelectorExpr (Id (NewIdent ''_f'')) (NewIdent ''Set''))
                      [BasicLit INT' (Itoa (int i)), Id (?names ! i)]))
          [0..<length ?names]"
    by (simp add: saveStmts_def)
  have nopop: "ExprStmt 0 (CallExpr (SelectorExpr (Id (NewIdent ''_c'')) (NewIdent ''Pop'')) [])
        \<notin> set (saveStmts ?names)"
    by (auto simp: saveStmts_def)
  from b sc c body d run shape nopop show ?thesis by blast
qed

text \<open>
  C10, as amended.  The generated declaration has the name and the type (parameters
  and results) of the source declaration, unchanged, and a new body; it has no
  receiver, whatever the source declaration has.
\<close>

theorem declaration_reused:
  assumes "compileFunction h p fn color = Some gen"
  shows "Name' gen = Name' fn \<and> Type gen = Type fn \<and> Recv gen = None \<and>
     (\<exists>stmts. Body gen = Some (Block 0 stmts))"
  using compileFunction_shape [OF assms] by auto

lemmas example_defs =
  squareDurable_def squareGenerator_def squareMethod_def squareBody_def squareType_def
  yieldCall_def pkgEx_def hEx_def typeExprEx_def yieldInt_def getSlot_def setSlot_def
  popFrame_def frameIP_def

lemmas compile_defs =
  compileFunction_def At_def scanAssign_def assignTok_def replaceIdent_def declareVars_def
  fieldNames_def saveAndRestoreNames_def saveAndRestoreTypes_def restoreStmts_def
  restoreState_def saveStmts_def saveState_def loadContext_def pushFrame_def lookup_def
  assignIP_def Itoa_def digits.simps digit_def NewIdent_def upt_rec Let_def fieldList_def
  leaf_def opt_def

lemma compile_squareGenerator:
  "compileFunction hEx pkgEx squareGenerator yieldInt = Some squareDurable"
  by (simp add: example_defs compile_defs)

lemma compile_squareMethod:
  "compileFunction hEx pkgEx squareMethod yieldInt = Some squareDurable"
  by (simp add: example_defs compile_defs)


theorem frame_epilogue_witness:
  "compileFunction hEx pkgEx squareGenerator yieldInt = Some squareDurable
   \<and> (\<exists>handler. deferred (saveState [Ident 62 ''n'' (Some 11), NewIdent ''_v0'']) = Some [handler]
        \<and> execIf (unwinding True) handler =
            Some [setSlot ''0'' (Ident 62 ''n'' (Some 11)), setSlot ''1'' (NewIdent ''_v0'')]
        \<and> execIf (unwinding False) handler = Some [popFrame])"
proof -
  have "\<exists>handler. deferred (saveState [Ident 62 ''n'' (Some 11), NewIdent ''_v0'']) = Some [handler]
        \<and> execIf (unwinding True) handler =
            Some [setSlot ''0'' (Ident 62 ''n'' (Some 11)), setSlot ''1'' (NewIdent ''_v0'')]
        \<and> execIf (unwinding False) handler = Some [popFrame]"
    by (simp add: example_defs saveStmts_def saveState_def unwinding_def upt_rec Itoa_def
        digits.simps digit_def NewIdent_def)
  with compile_squareGenerator have all: "compileFunction hEx pkgEx squareGenerator yieldInt =
       Some squareDurable
   \<and> (\<exists>handler. deferred (saveState [Ident 62 ''n'' (Some 11), NewIdent ''_v0'']) = Some [handler]
        \<and> execIf (unwinding True) handler =
            Some [setSlot ''0'' (Ident 62 ''n'' (Some 11)), setSlot ''1'' (NewIdent ''_v0'')]
        \<and> execIf (unwinding False) handler = Some [popFrame])"
    by (rule conjI)
  from frame_epilogue [OF compile_squareGenerator] show ?thesis by - (rule all)
qed

theorem declaration_reused_witness:
  "compileFunction hEx pkgEx squareGenerator yieldInt = Some squareDurable
   \<and> Name' squareDurable = Name' squareGenerator \<and> Type squareDurable = Type squareGenerator
   \<and> squareDurable = squareGenerator\<lparr>Body := Body squareDurable\<rparr>"
  using declaration_reused [OF compile_squareGenerator] compile_squareGenerator
  by (simp add: squareDurable_def squareGenerator_def)

text \<open>
  C10 as stated fails: compiled from a method, the generated declaration differs from
  the source declaration in more than the body; the receiver is gone.
\<close>

theorem declaration_reused_counterexample:
  "compileFunction hEx pkgEx squareMethod yieldInt = Some squareDurable
   \<and> Recv squareMethod \<noteq> None \<and> Recv squareDurable = None
   \<and> squareDurable \<noteq> squareMethod\<lparr>Body := Body squareDurable\<rparr>"
  using compile_squareMethod by (simp add: squareDurable_def squareMethod_def)

text \<open>
  C6.  The scan gives a variable \<^verbatim>\<open>_v<i>\<close> to the first target of every assignment
  statement, \<^verbatim>\<open>=\<close> as well as \<^verbatim>\<open>:=\<close>.  In \<^verbatim>\<open>func bump(_ string, n int) { n = 1 }\<close> the
  parameter \<^verbatim>\<open>n\<close> is such a target: the plan of the compiled function is \<^verbatim>\<open>n\<close>,
  \<^verbatim>\<open>_v0\<close>, the parameter \<^verbatim>\<open>_\<close> left out, a variable \<^verbatim>\<open>_v0\<close> is declared, and the body
  is \<^verbatim>\<open>_v0 = 1\<close>: the assignment no longer reaches the parameter.
\<close>

theorem slot_plan_parameter:
  "compileFunction hEx pkgEx bump yieldInt = Some bumpDurable
   \<and> firstAssigned (nodes (walkBlock (the (Body bump)))) = [Ident 47 ''n'' (Some 21)]
   \<and> saveAndRestoreNames bump [NewIdent ''_v0''] = [Ident 44 ''n'' (Some 21), NewIdent ''_v0'']"
  by (simp add: bump_def bumpDurable_def example_defs compile_defs firstAssigned_def
      keepFirst_def map_filter_simps)

text \<open>
  C3 as stated fails: the loop in the else branch of \<^verbatim>\<open>elseLoop\<close>, a function that passes
  the validation, is left as it is.  Nothing is appended to its body, and its two
  statements are not put into a dispatch block.
\<close>

theorem loop_body_reset_counterexample:
  "validate pkgEx elseLoop = None
   \<and> compileFunction hElse pkgEx elseLoop yieldInt =
       Some \<lparr>Recv = None, Name' = Name' elseLoop, Type = Type elseLoop,
             Body = Some (Block 0
               [loadContext [Id (NewIdent ''int''), Id (NewIdent ''any'')], pushFrame,
                restoreState hElse [] [], saveState [], elseIf])\<rparr>"
proof
  show "validate pkgEx elseLoop = None"
    by (simp add: validate_def gate_def elseLoop_def elseIf_def callStmt_def walkFuncDecl_def
        fieldList_def leaf_def opt_def Let_def)
next
  show "compileFunction hElse pkgEx elseLoop yieldInt =
       Some \<lparr>Recv = None, Name' = Name' elseLoop, Type = Type elseLoop,
             Body = Some (Block 0
               [loadContext [Id (NewIdent ''int''), Id (NewIdent ''any'')], pushFrame,
                restoreState hElse [] [], saveState [], elseIf])\<rparr>"
    by (simp add: elseLoop_def elseIf_def callStmt_def hElse_def pkgEx_def typeExprEx_def
        yieldInt_def compileFunction_def At_def scanAssign_def assignTok_def replaceIdent_def
        declareVars_def fieldNames_def saveAndRestoreNames_def saveAndRestoreTypes_def
        Let_def fieldList_def leaf_def opt_def)
qed

end
